theory Spec2Isabelle
  imports Complex_Main "HOL-Library.AList" "HOL-Library.Sublist"
begin

section \<open>Strings\<close>

text \<open>
  Python's \<^verbatim>\<open>a in b\<close> on strings: \<open>a\<close> occurs in \<open>b\<close> as a contiguous
  run of characters.
\<close>

fun starts_with :: "string \<Rightarrow> string \<Rightarrow> bool" where
  "starts_with [] s = True"
| "starts_with (c # p) [] = False"
| "starts_with (c # p) (d # s) = (c = d \<and> starts_with p s)"

fun str_in :: "string \<Rightarrow> string \<Rightarrow> bool" where
  "str_in p [] = (p = [])"
| "str_in p (d # s) = (starts_with p (d # s) \<or> str_in p s)"

text \<open>
  \<^verbatim>\<open>"{}".format(n)\<close> for a non-negative integer \<open>n\<close>: its decimal digits, most
  significant first.
\<close>

definition digit_char :: "nat \<Rightarrow> char" where
  "digit_char d = ''0123456789'' ! d"

fun str_nat :: "nat \<Rightarrow> string" where
  "str_nat n = (if n < 10 then [digit_char n] else str_nat (n div 10) @ [digit_char (n mod 10)])"

declare str_nat.simps [simp del]

section \<open>The module tree\<close>

text \<open>
  A \<^verbatim>\<open>torch.nn.Module\<close> is its class (with the constructor arguments the class keeps),
  its ordered dictionary of parameters and its ordered dictionary of child modules.
  A parameter tensor is represented by the initialiser that last wrote it:
  \<open>Constant c\<close> is a tensor every entry of which is \<open>c\<close>.
\<close>

datatype fan_mode = Fan_in | Fan_out

datatype tensor_fill =
    Framework_default
  | Kaiming_normal fan_mode
  | Constant int
  | Pretrained string

datatype py_class =
    Sequential
  | ConvBlock
  | DwsConvBlock
  | MobileNet "int \<times> int" int
  | Conv2d int int int int int
  | BatchNorm2d int
  | ReLU
  | AvgPool2d int int
  | Linear int int

datatype module =
  Module (cls: py_class) (parameters: "(string \<times> tensor_fill) list")
         (children: "(string \<times> module) list")

datatype error =
    ValueError string
  | IndexError
  | AttributeError string
  | RuntimeError string
  | OverflowError string

text \<open>
  \<^verbatim>\<open>Module.add_module(name, m)\<close> and \<^verbatim>\<open>Module.__setattr__(name, m)\<close> store \<open>m\<close> under
  \<open>name\<close> in the ordered dictionary of children: in place when the name is there,
  at the end otherwise.
\<close>

definition add_module :: "module \<Rightarrow> string \<Rightarrow> module \<Rightarrow> module" where
  "add_module self name m = Module (cls self) (parameters self) (AList.update name m (children self))"

text \<open>Attribute access \<^verbatim>\<open>self.name\<close> for a child module.\<close>

definition getattr :: "module \<Rightarrow> string \<Rightarrow> error + module" where
  "getattr self name =
     (case map_of (children self) name of
        None \<Rightarrow> Inl (AttributeError name)
      | Some m \<Rightarrow> Inr m)"

text \<open>
  The leaf layers of the framework, as a constructor call that returns leaves them:
  the class with its arguments and the parameters it registers.
\<close>

definition nn_Conv2d :: "int \<Rightarrow> int \<Rightarrow> int \<Rightarrow> int \<Rightarrow> int \<Rightarrow> module" where
  "nn_Conv2d in_channels out_channels kernel_size stride groups =
     Module (Conv2d in_channels out_channels kernel_size stride groups)
       [(''weight'', Framework_default)] []"

definition nn_BatchNorm2d :: "int \<Rightarrow> module" where
  "nn_BatchNorm2d num_features =
     Module (BatchNorm2d num_features)
       [(''weight'', Framework_default), (''bias'', Framework_default)] []"

definition nn_ReLU :: module where
  "nn_ReLU = Module ReLU [] []"

definition nn_AvgPool2d :: "int \<Rightarrow> int \<Rightarrow> module" where
  "nn_AvgPool2d kernel_size stride = Module (AvgPool2d kernel_size stride) [] []"

definition nn_Linear :: "int \<Rightarrow> int \<Rightarrow> bool \<Rightarrow> module" where
  "nn_Linear in_features out_features bias =
     Module (Linear in_features out_features)
       ((''weight'', Framework_default) # (if bias then [(''bias'', Framework_default)] else [])) []"

definition nn_Sequential :: "module list \<Rightarrow> module" where
  "nn_Sequential ms = Module Sequential [] (zip (map str_nat [0..<length ms]) ms)"

text \<open>
  The constructor calls \<^verbatim>\<open>nn.Conv2d(...)\<close>, \<^verbatim>\<open>nn.BatchNorm2d(...)\<close> and \<^verbatim>\<open>nn.Linear(...)\<close>,
  which raise on the arguments the framework rejects. A convolution checks its groups
  (\<^verbatim>\<open>groups\<close> positive, both channel counts divisible by it) and then allocates a
  weight of shape \<^verbatim>\<open>(out_channels, in_channels // groups, k, k)\<close>; allocating a tensor
  with a negative dimension raises. A dimension 0 gives an empty tensor.
\<close>

definition negative_dimension :: error where
  "negative_dimension = RuntimeError ''Trying to create tensor with negative dimension''"

definition Conv2d_init :: "int \<Rightarrow> int \<Rightarrow> int \<Rightarrow> int \<Rightarrow> int \<Rightarrow> error + module" where
  "Conv2d_init in_channels out_channels kernel_size stride groups =
     (if groups \<le> 0 then Inl (ValueError ''groups must be a positive integer'')
      else if in_channels mod groups \<noteq> 0
        then Inl (ValueError ''in_channels must be divisible by groups'')
      else if out_channels mod groups \<noteq> 0
        then Inl (ValueError ''out_channels must be divisible by groups'')
      else if out_channels < 0 \<or> in_channels div groups < 0 \<or> kernel_size < 0
        then Inl negative_dimension
      else Inr (nn_Conv2d in_channels out_channels kernel_size stride groups))"

definition BatchNorm2d_init :: "int \<Rightarrow> error + module" where
  "BatchNorm2d_init num_features =
     (if num_features < 0 then Inl negative_dimension
      else Inr (nn_BatchNorm2d num_features))"

definition Linear_init :: "int \<Rightarrow> int \<Rightarrow> bool \<Rightarrow> error + module" where
  "Linear_init in_features out_features bias =
     (if in_features < 0 \<or> out_features < 0 then Inl negative_dimension
      else Inr (nn_Linear in_features out_features bias))"

subsection \<open>Block builders\<close>

text \<open>
  Modelled from the spec: the block builders \<^verbatim>\<open>conv3x3_block\<close>, \<^verbatim>\<open>conv1x1_block\<close> and
  \<^verbatim>\<open>dwconv3x3_block\<close> of \<^verbatim>\<open>common.py\<close>, which is not among the sources. Each produces a
  convolution + normalization + activation unit from a channel/stride specification;
  the depthwise block has groups = its channel count, the pointwise block is a 1x1
  convolution. Construction fails when a layer constructor rejects the channel
  values. The children are named \<open>conv\<close>, \<open>bn\<close> and \<open>activ\<close>: the first two names
  are the ones the initialisation pass of \<^verbatim>\<open>mobilenet.py\<close> matches.
\<close>

definition conv_block :: "int \<Rightarrow> int \<Rightarrow> int \<Rightarrow> int \<Rightarrow> int \<Rightarrow> error + module" where
  "conv_block in_channels out_channels kernel_size stride groups =
     (case Conv2d_init in_channels out_channels kernel_size stride groups of
        Inl e \<Rightarrow> Inl e
      | Inr conv \<Rightarrow>
          (case BatchNorm2d_init out_channels of
             Inl e \<Rightarrow> Inl e
           | Inr bn \<Rightarrow>
               Inr (Module ConvBlock [] [(''conv'', conv), (''bn'', bn), (''activ'', nn_ReLU)])))"

text \<open>
  Modelled from the spec: \<^verbatim>\<open>conv3x3_block(in_channels, out_channels, stride)\<close>, a 3x3
  convolution block without grouping.
\<close>

definition conv3x3_block :: "int \<Rightarrow> int \<Rightarrow> int \<Rightarrow> error + module" where
  "conv3x3_block in_channels out_channels stride = conv_block in_channels out_channels 3 stride 1"

text \<open>
  Modelled from the spec: \<^verbatim>\<open>conv1x1_block(in_channels, out_channels)\<close>, the pointwise
  block, of stride 1.
\<close>

definition conv1x1_block :: "int \<Rightarrow> int \<Rightarrow> error + module" where
  "conv1x1_block in_channels out_channels = conv_block in_channels out_channels 1 1 1"

text \<open>
  Modelled from the spec: \<^verbatim>\<open>dwconv3x3_block(in_channels, out_channels, stride)\<close>, the
  depthwise block, with one group per channel.
\<close>

definition dwconv3x3_block :: "int \<Rightarrow> int \<Rightarrow> int \<Rightarrow> error + module" where
  "dwconv3x3_block in_channels out_channels stride =
     conv_block in_channels out_channels 3 stride out_channels"

section \<open>DwsConvBlock and MobileNet\<close>

definition DwsConvBlock_init :: "int \<Rightarrow> int \<Rightarrow> int \<Rightarrow> error + module" where
  "DwsConvBlock_init in_channels out_channels stride =
     (let self = Module DwsConvBlock [] []
      in case dwconv3x3_block in_channels in_channels stride of
           Inl e \<Rightarrow> Inl e
         | Inr dw_conv \<Rightarrow>
             (let self = add_module self ''dw_conv'' dw_conv
              in case conv1x1_block in_channels out_channels of
                   Inl e \<Rightarrow> Inl e
                 | Inr pw_conv \<Rightarrow> Inr (add_module self ''pw_conv'' pw_conv)))"

text \<open>
  The inner loop of \<^verbatim>\<open>MobileNet.__init__\<close> over \<^verbatim>\<open>enumerate(channels_per_stage)\<close>:
  the state is the stage under construction and the running \<^verbatim>\<open>in_channels\<close>. It
  stops at the first unit whose construction raises.
\<close>

fun unit_loop ::
  "bool \<Rightarrow> nat \<Rightarrow> (nat \<times> int) list \<Rightarrow> module \<times> int \<Rightarrow> error + module \<times> int" where
  "unit_loop first_stage_stride i [] (stage, in_channels) = Inr (stage, in_channels)"
| "unit_loop first_stage_stride i ((j, out_channels) # rest) (stage, in_channels) =
     (let stride = (if j = 0 \<and> (i \<noteq> 0 \<or> first_stage_stride) then 2 else 1)
      in case DwsConvBlock_init in_channels out_channels stride of
           Inl e \<Rightarrow> Inl e
         | Inr unit \<Rightarrow>
             unit_loop first_stage_stride i rest
               (add_module stage (''unit'' @ str_nat (j + 1)) unit, out_channels))"

text \<open>The outer loop over \<^verbatim>\<open>enumerate(channels[1:])\<close>.\<close>

fun stage_loop ::
  "bool \<Rightarrow> (nat \<times> int list) list \<Rightarrow> module \<times> int \<Rightarrow> error + module \<times> int" where
  "stage_loop first_stage_stride [] (features, in_channels) = Inr (features, in_channels)"
| "stage_loop first_stage_stride ((i, channels_per_stage) # rest) (features, in_channels) =
     (case unit_loop first_stage_stride i (enumerate 0 channels_per_stage)
             (nn_Sequential [], in_channels) of
        Inl e \<Rightarrow> Inl e
      | Inr (stage, in_channels) \<Rightarrow>
          stage_loop first_stage_stride rest
            (add_module features (''stage'' @ str_nat (i + 1)) stage, in_channels))"

subsection \<open>The initialisation pass\<close>

text \<open>
  \<^verbatim>\<open>init.kaiming_normal_(module.weight, mode=...)\<close> and \<^verbatim>\<open>init.constant_(module.p, c)\<close>:
  reading a parameter the module does not have raises.
\<close>

definition init_kaiming_normal :: "module \<Rightarrow> string \<Rightarrow> fan_mode \<Rightarrow> error + module" where
  "init_kaiming_normal m p mode =
     (if p \<in> fst ` set (parameters m)
      then Inr (Module (cls m) (AList.update p (Kaiming_normal mode) (parameters m)) (children m))
      else Inl (AttributeError p))"

definition init_constant :: "module \<Rightarrow> string \<Rightarrow> int \<Rightarrow> error + module" where
  "init_constant m p c =
     (if p \<in> fst ` set (parameters m)
      then Inr (Module (cls m) (AList.update p (Constant c) (parameters m)) (children m))
      else Inl (AttributeError p))"

text \<open>The body of the loop of \<^verbatim>\<open>_init_params\<close>, for one named module.\<close>

definition init_module :: "string \<Rightarrow> module \<Rightarrow> error + module" where
  "init_module name m =
     (if str_in ''dw_conv.conv'' name then init_kaiming_normal m ''weight'' Fan_in
      else if name = ''init_block.conv'' \<or> str_in ''pw_conv.conv'' name
        then init_kaiming_normal m ''weight'' Fan_out
      else if str_in ''bn'' name then
        (case init_constant m ''weight'' 1 of
           Inl e \<Rightarrow> Inl e
         | Inr m' \<Rightarrow> init_constant m' ''bias'' 0)
      else if str_in ''output'' name then
        (case init_kaiming_normal m ''weight'' Fan_out of
           Inl e \<Rightarrow> Inl e
         | Inr m' \<Rightarrow> init_constant m' ''bias'' 0)
      else Inr m)"

text \<open>
  \<^verbatim>\<open>Module.named_modules()\<close>: the module itself under the prefix, then the named modules
  of each child under \<^verbatim>\<open>prefix + ('.' if prefix else '') + name\<close>, in order.
\<close>

definition sub_prefix :: "string \<Rightarrow> string \<Rightarrow> string" where
  "sub_prefix pfx name = pfx @ (if pfx = [] then [] else ''.'') @ name"

fun named_modules :: "string \<Rightarrow> module \<Rightarrow> (string \<times> module) list"
  and named_children :: "string \<Rightarrow> (string \<times> module) list \<Rightarrow> (string \<times> module) list" where
  "named_modules pfx (Module c ps cs) = (pfx, Module c ps cs) # named_children pfx cs"
| "named_children pfx [] = []"
| "named_children pfx ((name, m) # rest) =
     named_modules (sub_prefix pfx name) m @ named_children pfx rest"

text \<open>
  \<^verbatim>\<open>_init_params\<close> walks \<^verbatim>\<open>named_modules()\<close> and writes the parameters of each module in
  place; the walk is in pre-order and stops at the first error.
\<close>

fun init_params_from :: "string \<Rightarrow> module \<Rightarrow> error + module"
  and init_params_children :: "string \<Rightarrow> (string \<times> module) list \<Rightarrow> error + (string \<times> module) list" where
  "init_params_from pfx (Module c ps cs) =
     (case init_module pfx (Module c ps cs) of
        Inl e \<Rightarrow> Inl e
      | Inr m' \<Rightarrow>
          (case init_params_children pfx cs of
             Inl e \<Rightarrow> Inl e
           | Inr cs' \<Rightarrow> Inr (Module (cls m') (parameters m') cs')))"
| "init_params_children pfx [] = Inr []"
| "init_params_children pfx ((name, m) # rest) =
     (case init_params_from (sub_prefix pfx name) m of
        Inl e \<Rightarrow> Inl e
      | Inr m' \<Rightarrow>
          (case init_params_children pfx rest of
             Inl e \<Rightarrow> Inl e
           | Inr rest' \<Rightarrow> Inr ((name, m') # rest')))"

definition init_params :: "module \<Rightarrow> error + module" where
  "init_params self = init_params_from [] self"

subsection \<open>The constructor\<close>

definition MobileNet_init ::
  "int list list \<Rightarrow> bool \<Rightarrow> int \<Rightarrow> int \<times> int \<Rightarrow> int \<Rightarrow> error + module" where
  "MobileNet_init channels first_stage_stride in_channels in_size num_classes =
     (case channels of
        [] \<Rightarrow> Inl IndexError
      | channels0 # channels1 \<Rightarrow>
          (case channels0 of
             [] \<Rightarrow> Inl IndexError
           | init_block_channels # _ \<Rightarrow>
               (case conv3x3_block in_channels init_block_channels 2 of
                  Inl e \<Rightarrow> Inl e
                | Inr init_block \<Rightarrow>
                    (let features = add_module (nn_Sequential []) ''init_block'' init_block
                     in case stage_loop first_stage_stride (enumerate 0 channels1)
                               (features, init_block_channels) of
                          Inl e \<Rightarrow> Inl e
                        | Inr (features, in_channels) \<Rightarrow>
                            (let features = add_module features ''final_pool'' (nn_AvgPool2d 7 1)
                             in case Linear_init in_channels num_classes True of
                                  Inl e \<Rightarrow> Inl e
                                | Inr out \<Rightarrow>
                                    (let self = Module (MobileNet in_size num_classes) [] [];
                                         self = add_module self ''features'' features;
                                         self = add_module self ''output'' out
                                     in init_params self))))))"

section \<open>The architecture factory\<close>

text \<open>
  The calls \<^verbatim>\<open>get_mobilenet\<close> makes to constructors and collaborators, in order:
  what work a call has done when it returns or raises.
\<close>

datatype work = Construct_MobileNet "int list list" bool | Download_model string string

text \<open>
  A Python float: a finite value, given exactly, an infinity or NaN.
\<close>

datatype py_float = Float rat | PosInf | NegInf | NaN

text \<open>
  The product \<^verbatim>\<open>cij * width_scale\<close> of an integer and a float. The channel counts of
  both base tables are powers of two, so the product with a finite float is exact
  unless it overflows, and then it is an infinity.
\<close>

fun mul_int_float :: "int \<Rightarrow> py_float \<Rightarrow> py_float" where
  "mul_int_float c (Float x) =
     (if \<bar>of_int c * x\<bar> < 2 ^ 1024 then Float (of_int c * x)
      else if 0 < of_int c * x then PosInf else NegInf)"
| "mul_int_float c PosInf = (if 0 < c then PosInf else if c < 0 then NegInf else NaN)"
| "mul_int_float c NegInf = (if 0 < c then NegInf else if c < 0 then PosInf else NaN)"
| "mul_int_float c NaN = NaN"

text \<open>\<^verbatim>\<open>int(x)\<close> truncates towards zero, and raises on an infinity and on NaN.\<close>

fun py_int :: "py_float \<Rightarrow> error + int" where
  "py_int (Float x) = Inr (if 0 \<le> x then \<lfloor>x\<rfloor> else \<lceil>x\<rceil>)"
| "py_int PosInf = Inl (OverflowError ''cannot convert float infinity to integer'')"
| "py_int NegInf = Inl (OverflowError ''cannot convert float infinity to integer'')"
| "py_int NaN = Inl (ValueError ''cannot convert float NaN to integer'')"

text \<open>
  The comprehension \<^verbatim>\<open>[[int(cij * width_scale) for cij in ci] for ci in channels]\<close>,
  evaluated from left to right; the first conversion that raises ends it.
\<close>

fun scale_row :: "py_float \<Rightarrow> int list \<Rightarrow> error + int list" where
  "scale_row width_scale [] = Inr []"
| "scale_row width_scale (cij # ci) =
     (case py_int (mul_int_float cij width_scale) of
        Inl e \<Rightarrow> Inl e
      | Inr v \<Rightarrow>
          (case scale_row width_scale ci of
             Inl e \<Rightarrow> Inl e
           | Inr vs \<Rightarrow> Inr (v # vs)))"

fun scale_channels :: "py_float \<Rightarrow> int list list \<Rightarrow> error + int list list" where
  "scale_channels width_scale [] = Inr []"
| "scale_channels width_scale (ci # channels) =
     (case scale_row width_scale ci of
        Inl e \<Rightarrow> Inl e
      | Inr row \<Rightarrow>
          (case scale_channels width_scale channels of
             Inl e \<Rightarrow> Inl e
           | Inr rows \<Rightarrow> Inr (row # rows)))"

text \<open>Lines 245 to 252 of \<^verbatim>\<open>get_mobilenet\<close>: the base table and the stride flag of a version.\<close>

definition base_table :: "string \<Rightarrow> error + (int list list \<times> bool)" where
  "base_table version =
     (if version = ''orig'' then
        Inr ([[32], [64], [128, 128], [256, 256], [512, 512, 512, 512, 512, 512], [1024, 1024]],
             False)
      else if version = ''fd'' then
        Inr ([[32], [64], [128, 128], [256, 256], [512, 512, 512, 512, 512, 1024]],
             True)
      else Inl (ValueError (''Unsupported MobileNet version '' @ version)))"

text \<open>Lines 245 to 255: the channel table, scaled when the width scale is not 1.0.\<close>

definition get_channels :: "string \<Rightarrow> py_float \<Rightarrow> error + (int list list \<times> bool)" where
  "get_channels version width_scale =
     (case base_table version of
        Inl e \<Rightarrow> Inl e
      | Inr (channels, first_stage_stride) \<Rightarrow>
          if width_scale \<noteq> Float 1 then
            (case scale_channels width_scale channels of
               Inl e \<Rightarrow> Inl e
             | Inr channels \<Rightarrow> Inr (channels, first_stage_stride))
          else Inr (channels, first_stage_stride))"

text \<open>
  Modelled from the spec: \<^verbatim>\<open>download_model\<close> of \<^verbatim>\<open>model_store.py\<close>, which is not among
  the sources. Given a network, a model name and a local storage directory, it
  retrieves and applies serialized parameters into the network's parameter tensors.
\<close>

fun load_parameters :: "string \<Rightarrow> module \<Rightarrow> module"
  and load_parameters_children :: "string \<Rightarrow> (string \<times> module) list \<Rightarrow> (string \<times> module) list" where
  "load_parameters model_name (Module c ps cs) =
     Module c (map (\<lambda>(p, _). (p, Pretrained model_name)) ps) (load_parameters_children model_name cs)"
| "load_parameters_children model_name [] = []"
| "load_parameters_children model_name ((name, m) # rest) =
     (name, load_parameters model_name m) # load_parameters_children model_name rest"

text \<open>
  Modelled from the spec: \<^verbatim>\<open>download_model(net, model_name, local_model_store_dir_path)\<close>
  writes every parameter tensor of the network from the store.
\<close>

definition download_model :: "module \<Rightarrow> string \<Rightarrow> string \<Rightarrow> module" where
  "download_model net model_name local_model_store_dir_path = load_parameters model_name net"

text \<open>The keyword arguments \<^verbatim>\<open>get_mobilenet\<close> passes on to \<^verbatim>\<open>MobileNet\<close>, with their defaults.\<close>

record kwargs =
  kw_in_channels :: int
  kw_in_size :: "int \<times> int"
  kw_num_classes :: int

definition default_kwargs :: kwargs where
  "default_kwargs = \<lparr>kw_in_channels = 3, kw_in_size = (224, 224), kw_num_classes = 1000\<rparr>"

definition default_root :: string where
  "default_root = ''~/.torch/models''"

definition model_name_error :: error where
  "model_name_error =
     ValueError ''Parameter `model_name` should be properly initialized for loading pretrained model.''"

definition get_mobilenet ::
  "string \<Rightarrow> py_float \<Rightarrow> string option \<Rightarrow> bool \<Rightarrow> string \<Rightarrow> kwargs \<Rightarrow>
   work list \<times> (error + module)" where
  "get_mobilenet version width_scale model_name pretrained root_dir kwargs =
     (case get_channels version width_scale of
        Inl e \<Rightarrow> ([], Inl e)
      | Inr (channels, first_stage_stride) \<Rightarrow>
          (case MobileNet_init channels first_stage_stride
                  (kw_in_channels kwargs) (kw_in_size kwargs) (kw_num_classes kwargs) of
             Inl e \<Rightarrow> ([Construct_MobileNet channels first_stage_stride], Inl e)
           | Inr net \<Rightarrow>
               if pretrained then
                 (case model_name of
                    None \<Rightarrow> ([Construct_MobileNet channels first_stage_stride], Inl model_name_error)
                  | Some name \<Rightarrow>
                      if name = [] then
                        ([Construct_MobileNet channels first_stage_stride], Inl model_name_error)
                      else
                        ([Construct_MobileNet channels first_stage_stride, Download_model name root_dir],
                         Inr (download_model net name root_dir)))
               else ([Construct_MobileNet channels first_stage_stride], Inr net)))"

text \<open>
  The named variants. Each passes \<^verbatim>\<open>**kwargs\<close> on: \<^verbatim>\<open>pretrained\<close> and \<^verbatim>\<open>root\<close> for
  \<^verbatim>\<open>get_mobilenet\<close>, the rest for \<^verbatim>\<open>MobileNet\<close>. A caller cannot pass \<^verbatim>\<open>version\<close>,
  \<^verbatim>\<open>width_scale\<close> or \<^verbatim>\<open>model_name\<close> this way: Python rejects the repeated keyword
  with \<^verbatim>\<open>TypeError\<close> before \<^verbatim>\<open>get_mobilenet\<close> runs.
\<close>

definition mobilenet_w1 :: "bool \<Rightarrow> string \<Rightarrow> kwargs \<Rightarrow> work list \<times> (error + module)" where
  "mobilenet_w1 pretrained root_dir kwargs =
     get_mobilenet ''orig'' (Float 1) (Some ''mobilenet_w1'') pretrained root_dir kwargs"

definition mobilenet_w3d4 :: "bool \<Rightarrow> string \<Rightarrow> kwargs \<Rightarrow> work list \<times> (error + module)" where
  "mobilenet_w3d4 pretrained root_dir kwargs =
     get_mobilenet ''orig'' (Float (3 / 4)) (Some ''mobilenet_w3d4'') pretrained root_dir kwargs"

definition mobilenet_wd2 :: "bool \<Rightarrow> string \<Rightarrow> kwargs \<Rightarrow> work list \<times> (error + module)" where
  "mobilenet_wd2 pretrained root_dir kwargs =
     get_mobilenet ''orig'' (Float (1 / 2)) (Some ''mobilenet_wd2'') pretrained root_dir kwargs"

definition mobilenet_wd4 :: "bool \<Rightarrow> string \<Rightarrow> kwargs \<Rightarrow> work list \<times> (error + module)" where
  "mobilenet_wd4 pretrained root_dir kwargs =
     get_mobilenet ''orig'' (Float (1 / 4)) (Some ''mobilenet_wd4'') pretrained root_dir kwargs"

definition fdmobilenet_w1 :: "bool \<Rightarrow> string \<Rightarrow> kwargs \<Rightarrow> work list \<times> (error + module)" where
  "fdmobilenet_w1 pretrained root_dir kwargs =
     get_mobilenet ''fd'' (Float 1) (Some ''fdmobilenet_w1'') pretrained root_dir kwargs"

definition fdmobilenet_w3d4 :: "bool \<Rightarrow> string \<Rightarrow> kwargs \<Rightarrow> work list \<times> (error + module)" where
  "fdmobilenet_w3d4 pretrained root_dir kwargs =
     get_mobilenet ''fd'' (Float (3 / 4)) (Some ''fdmobilenet_w3d4'') pretrained root_dir kwargs"

definition fdmobilenet_wd2 :: "bool \<Rightarrow> string \<Rightarrow> kwargs \<Rightarrow> work list \<times> (error + module)" where
  "fdmobilenet_wd2 pretrained root_dir kwargs =
     get_mobilenet ''fd'' (Float (1 / 2)) (Some ''fdmobilenet_wd2'') pretrained root_dir kwargs"

definition fdmobilenet_wd4 :: "bool \<Rightarrow> string \<Rightarrow> kwargs \<Rightarrow> work list \<times> (error + module)" where
  "fdmobilenet_wd4 pretrained root_dir kwargs =
     get_mobilenet ''fd'' (Float (1 / 4)) (Some ''fdmobilenet_wd4'') pretrained root_dir kwargs"

section \<open>MyMobilenetV1\<close>

text \<open>
  \<^verbatim>\<open>remove_sequential(network, all_layers)\<close> appends to \<^verbatim>\<open>all_layers\<close>; the list is
  passed in and returned.
\<close>

fun remove_sequential :: "module \<Rightarrow> module list \<Rightarrow> module list"
  and remove_sequential_children :: "(string \<times> module) list \<Rightarrow> module list \<Rightarrow> module list" where
  "remove_sequential (Module c ps cs) all_layers = remove_sequential_children cs all_layers"
| "remove_sequential_children [] all_layers = all_layers"
| "remove_sequential_children ((name, layer) # rest) all_layers =
     (if cls layer = Sequential
      then remove_sequential_children rest (remove_sequential layer all_layers)
      else remove_sequential_children rest (all_layers @ [layer]))"

fun remove_DwsConvBlock_loop :: "module list \<Rightarrow> module list \<Rightarrow> module list" where
  "remove_DwsConvBlock_loop [] all_layers = all_layers"
| "remove_DwsConvBlock_loop (layer # rest) all_layers =
     (if cls layer = DwsConvBlock
      then remove_DwsConvBlock_loop rest (all_layers @ map snd (children layer))
      else remove_DwsConvBlock_loop rest (all_layers @ [layer]))"

definition remove_DwsConvBlock :: "module list \<Rightarrow> module list" where
  "remove_DwsConvBlock cur_layers = remove_DwsConvBlock_loop cur_layers []"

text \<open>The loop over \<^verbatim>\<open>enumerate(all_layers[:-1])\<close> that fills the two lists.\<close>

fun partition_loop ::
  "int \<Rightarrow> (nat \<times> module) list \<Rightarrow> module list \<times> module list \<Rightarrow> module list \<times> module list" where
  "partition_loop latent_layer_num [] (lat_list, end_list) = (lat_list, end_list)"
| "partition_loop latent_layer_num ((i, layer) # rest) (lat_list, end_list) =
     (if int i \<le> latent_layer_num
      then partition_loop latent_layer_num rest (lat_list @ [layer], end_list)
      else partition_loop latent_layer_num rest (lat_list, end_list @ [layer]))"

text \<open>
  Lines 162 and 163: the base network with its final pool replaced. The assignment
  \<^verbatim>\<open>model.features.final_pool = nn.AvgPool2d(4)\<close> writes into the \<^verbatim>\<open>features\<close> object the
  model holds; \<^verbatim>\<open>nn.AvgPool2d(4)\<close> has stride = kernel size.
\<close>

definition base_model :: "bool \<Rightarrow> work list \<times> (error + module)" where
  "base_model pretrained =
     (case mobilenet_w1 pretrained default_root default_kwargs of
        (w, Inl e) \<Rightarrow> (w, Inl e)
      | (w, Inr model) \<Rightarrow>
          (case getattr model ''features'' of
             Inl e \<Rightarrow> (w, Inl e)
           | Inr features \<Rightarrow>
               (w, Inr (add_module model ''features''
                          (add_module features ''final_pool'' (nn_AvgPool2d 4 4))))))"

text \<open>Lines 169 to 171: the flattened list of layers.\<close>

definition flatten_layers :: "module \<Rightarrow> module list" where
  "flatten_layers model = remove_DwsConvBlock (remove_sequential model [])"

record my_mobilenet_v1 =
  lat_features :: module
  end_features :: module
  output_layer :: module

definition MyMobilenetV1_init :: "bool \<Rightarrow> int \<Rightarrow> work list \<times> (error + my_mobilenet_v1)" where
  "MyMobilenetV1_init pretrained latent_layer_num =
     (case base_model pretrained of
        (w, Inl e) \<Rightarrow> (w, Inl e)
      | (w, Inr model) \<Rightarrow>
          (let all_layers = flatten_layers model;
               (lat_list, end_list) =
                  partition_loop latent_layer_num (enumerate 0 (butlast all_layers)) ([], [])
           in (w, Inr \<lparr>lat_features = nn_Sequential lat_list,
                       end_features = nn_Sequential end_list,
                       output_layer = nn_Linear 1024 50 False\<rparr>)))"

text \<open>
  The forward pass. A tensor is the list of its rows along the batch dimension;
  \<^verbatim>\<open>torch.cat((a, b), 0)\<close> is then \<open>a @ b\<close>. What a leaf layer computes and what
  \<^verbatim>\<open>x.view(x.size(0), -1)\<close> does to the rows belong to the framework and are the
  parameters \<open>apply_layer\<close> and \<open>view\<close>. \<^verbatim>\<open>nn.Sequential.forward\<close> feeds the input
  through the children in order. The scope \<^verbatim>\<open>torch.no_grad()\<close> changes what is
  recorded for differentiation, not the values computed.
\<close>

definition Sequential_forward :: "(module \<Rightarrow> 'a list \<Rightarrow> 'a list) \<Rightarrow> module \<Rightarrow> 'a list \<Rightarrow> 'a list" where
  "Sequential_forward apply_layer self x = foldl (\<lambda>input m. apply_layer m input) x (map snd (children self))"

definition forward ::
  "(module \<Rightarrow> 'a list \<Rightarrow> 'a list) \<Rightarrow> ('a list \<Rightarrow> 'a list) \<Rightarrow> my_mobilenet_v1 \<Rightarrow>
   'a list \<Rightarrow> 'a list option \<Rightarrow> bool \<Rightarrow> 'a list \<times> 'a list option" where
  "forward apply_layer view self x latent_input return_lat_acts =
     (let orig_acts = Sequential_forward apply_layer (lat_features self) x;
          lat_acts = (case latent_input of
                        Some injected \<Rightarrow> orig_acts @ injected
                      | None \<Rightarrow> orig_acts);
          x = Sequential_forward apply_layer (end_features self) lat_acts;
          x = view x;
          logits = apply_layer (output_layer self) x
      in if return_lat_acts then (logits, Some orig_acts) else (logits, None))"

section \<open>Reading a constructed network\<close>

text \<open>The attribute chain \<^verbatim>\<open>net.a.b.c\<close>, read from left to right.\<close>

fun getattr_path :: "module \<Rightarrow> string list \<Rightarrow> error + module" where
  "getattr_path m [] = Inr m"
| "getattr_path m (name # names) =
     (case getattr m name of
        Inl e \<Rightarrow> Inl e
      | Inr c \<Rightarrow> getattr_path c names)"

text \<open>
  The stride of unit \<open>j\<close> of stage \<open>i\<close> (both counted from 0, as the loops count them):
  \<^verbatim>\<open>net.features.stage{i+1}.unit{j+1}.dw_conv.conv.stride\<close>.
\<close>

definition unit_stride :: "module \<Rightarrow> nat \<Rightarrow> nat \<Rightarrow> error + int" where
  "unit_stride net i j =
     (case getattr_path net
             [''features'', ''stage'' @ str_nat (i + 1), ''unit'' @ str_nat (j + 1), ''dw_conv'', ''conv''] of
        Inl e \<Rightarrow> Inl e
      | Inr conv \<Rightarrow>
          (case cls conv of
             Conv2d _ _ _ stride _ \<Rightarrow> Inr stride
           | _ \<Rightarrow> Inl (AttributeError ''stride'')))"

text \<open>The parameter \<open>p\<close> of the module at the end of an attribute chain.\<close>

definition param_at :: "module \<Rightarrow> string list \<Rightarrow> string \<Rightarrow> tensor_fill option" where
  "param_at net path p =
     (case getattr_path net path of
        Inl e \<Rightarrow> None
      | Inr m \<Rightarrow> map_of (parameters m) p)"

text \<open>The modules an \<^verbatim>\<open>nn.Sequential\<close> holds, in order.\<close>

definition layers_of :: "module \<Rightarrow> module list" where
  "layers_of self = map snd (children self)"

text \<open>
  The order in which the forward pass of the base network applies its blocks.
  \<^verbatim>\<open>nn.Sequential.forward\<close> applies the children in order, \<^verbatim>\<open>DwsConvBlock.forward\<close>
  applies \<^verbatim>\<open>self.dw_conv\<close> and then \<^verbatim>\<open>self.pw_conv\<close>, and \<^verbatim>\<open>MobileNet.forward\<close> applies
  \<^verbatim>\<open>self.features\<close> and then, after the reshape, \<^verbatim>\<open>self.output\<close>.
\<close>

fun forward_order :: "module \<Rightarrow> module list"
  and forward_order_children :: "(string \<times> module) list \<Rightarrow> module list" where
  "forward_order (Module c ps cs) =
     (if c = Sequential then forward_order_children cs
      else if c = DwsConvBlock then
        (case (map_of cs ''dw_conv'', map_of cs ''pw_conv'') of
           (Some dw_conv, Some pw_conv) \<Rightarrow> [dw_conv, pw_conv]
         | _ \<Rightarrow> [])
      else [Module c ps cs])"
| "forward_order_children [] = []"
| "forward_order_children ((name, m) # rest) = forward_order m @ forward_order_children rest"

definition MobileNet_forward_order :: "module \<Rightarrow> module list" where
  "MobileNet_forward_order self =
     (case (map_of (children self) ''features'', map_of (children self) ''output'') of
        (Some features, Some out) \<Rightarrow> forward_order features @ [out]
      | _ \<Rightarrow> [])"

section \<open>Closed forms of the construction\<close>

text \<open>
  What the two loops of \<^verbatim>\<open>MobileNet.__init__\<close> build, written without the loops:
  the stride of unit \<open>j\<close> of stage \<open>i\<close>, the units of a stage from index \<open>j\<close> on and
  the stages from index \<open>i\<close> on, for a unit constructor \<open>mk\<close>. They are used in the
  proofs only, with \<open>mk\<close> the unit as constructed and the unit as initialised.
\<close>

definition unit_stride_of :: "bool \<Rightarrow> nat \<Rightarrow> nat \<Rightarrow> int" where
  "unit_stride_of first_stage_stride i j = (if j = 0 \<and> (i \<noteq> 0 \<or> first_stage_stride) then 2 else 1)"

fun units_of ::
  "(int \<Rightarrow> int \<Rightarrow> int \<Rightarrow> module) \<Rightarrow> bool \<Rightarrow> nat \<Rightarrow> nat \<Rightarrow> int \<Rightarrow> int list \<Rightarrow> (string \<times> module) list" where
  "units_of mk fss i j inc [] = []"
| "units_of mk fss i j inc (c # cs) =
     (''unit'' @ str_nat (j + 1), mk inc c (unit_stride_of fss i j)) # units_of mk fss i (Suc j) c cs"

fun stages_of ::
  "(int \<Rightarrow> int \<Rightarrow> int \<Rightarrow> module) \<Rightarrow> bool \<Rightarrow> nat \<Rightarrow> int \<Rightarrow> int list list \<Rightarrow> (string \<times> module) list" where
  "stages_of mk fss i inc [] = []"
| "stages_of mk fss i inc (cps # rest) =
     (''stage'' @ str_nat (i + 1), Module Sequential [] (units_of mk fss i 0 inc cps))
       # stages_of mk fss (Suc i) (last (inc # cps)) rest"

text \<open>
  A convolution block and a unit as their builders return them, when they return.
\<close>

definition conv_block_built :: "int \<Rightarrow> int \<Rightarrow> int \<Rightarrow> int \<Rightarrow> int \<Rightarrow> module" where
  "conv_block_built in_channels out_channels kernel_size stride groups =
     Module ConvBlock []
       [(''conv'', nn_Conv2d in_channels out_channels kernel_size stride groups),
        (''bn'', nn_BatchNorm2d out_channels),
        (''activ'', nn_ReLU)]"

definition DwsConvBlock_built :: "int \<Rightarrow> int \<Rightarrow> int \<Rightarrow> module" where
  "DwsConvBlock_built in_channels out_channels stride =
     Module DwsConvBlock []
       [(''dw_conv'', conv_block_built in_channels in_channels 3 stride in_channels),
        (''pw_conv'', conv_block_built in_channels out_channels 1 1 1)]"

text \<open>
  A convolution block, a unit and the whole network after the initialisation pass;
  \<open>w\<close> is what the pass leaves in the weight of the block's convolution.
\<close>

definition conv_block_after :: "tensor_fill \<Rightarrow> int \<Rightarrow> int \<Rightarrow> int \<Rightarrow> int \<Rightarrow> int \<Rightarrow> module" where
  "conv_block_after w in_channels out_channels kernel_size stride groups =
     Module ConvBlock []
       [(''conv'', Module (Conv2d in_channels out_channels kernel_size stride groups) [(''weight'', w)] []),
        (''bn'', Module (BatchNorm2d out_channels) [(''weight'', Constant 1), (''bias'', Constant 0)] []),
        (''activ'', nn_ReLU)]"

definition DwsConvBlock_after :: "int \<Rightarrow> int \<Rightarrow> int \<Rightarrow> module" where
  "DwsConvBlock_after in_channels out_channels stride =
     Module DwsConvBlock []
       [(''dw_conv'', conv_block_after (Kaiming_normal Fan_in) in_channels in_channels 3 stride in_channels),
        (''pw_conv'', conv_block_after (Kaiming_normal Fan_out) in_channels out_channels 1 1 1)]"

definition MobileNet_after :: "int list list \<Rightarrow> bool \<Rightarrow> int \<Rightarrow> int \<times> int \<Rightarrow> int \<Rightarrow> module" where
  "MobileNet_after channels first_stage_stride in_channels in_size num_classes =
     Module (MobileNet in_size num_classes) []
       [(''features'',
         Module Sequential []
           ((''init_block'', conv_block_after Framework_default in_channels (hd (hd channels)) 3 2 1)
              # stages_of DwsConvBlock_after first_stage_stride 0 (hd (hd channels)) (tl channels)
              @ [(''final_pool'', nn_AvgPool2d 7 1)])),
        (''output'',
         Module (Linear (last (hd (hd channels) # concat (tl channels))) num_classes)
           [(''weight'', Kaiming_normal Fan_out), (''bias'', Constant 0)] [])]"

section \<open>Decimal names and substring tests\<close>

lemma digit_char_inj:
  assumes "a < 10" "b < 10" "digit_char a = digit_char b"
  shows "a = b"
proof -
  have d: "distinct ''0123456789''" by simp
  have "a < length ''0123456789''" "b < length ''0123456789''" using assms by simp_all
  with d assms(3) show ?thesis
    unfolding digit_char_def by (simp only: nth_eq_iff_index_eq)
qed

lemma digit_char_in: "d < 10 \<Longrightarrow> digit_char d \<in> set ''0123456789''"
  unfolding digit_char_def by (rule nth_mem) simp

lemma str_nat_not_Nil: "str_nat n \<noteq> []"
  by (subst str_nat.simps) simp

lemma set_str_nat: "set (str_nat n) \<subseteq> set ''0123456789''"
proof (induction n rule: str_nat.induct)
  case (1 n)
  show ?case
  proof (cases "n < 10")
    case True
    then show ?thesis using digit_char_in [of n] by (subst str_nat.simps) simp
  next
    case False
    have "n mod 10 < 10" by simp
    then have "digit_char (n mod 10) \<in> set ''0123456789''" by (rule digit_char_in)
    with False 1 show ?thesis by (subst str_nat.simps) simp
  qed
qed

lemma str_nat_inj: "str_nat m = str_nat n \<Longrightarrow> m = n"
proof (induction m arbitrary: n rule: str_nat.induct)
  case (1 m)
  show ?case
  proof (cases "m < 10")
    case m: True
    show ?thesis
    proof (cases "n < 10")
      case True
      with m 1(2) show ?thesis
        by (simp add: str_nat.simps [of m] str_nat.simps [of n] digit_char_inj)
    next
      case False
      with m 1(2) str_nat_not_Nil [of "n div 10"] show ?thesis
        by (simp add: str_nat.simps [of m] str_nat.simps [of n] Cons_eq_append_conv)
    qed
  next
    case m: False
    show ?thesis
    proof (cases "n < 10")
      case True
      with m 1(2) str_nat_not_Nil [of "m div 10"] show ?thesis
        by (simp add: str_nat.simps [of m] str_nat.simps [of n] append_eq_Cons_conv)
    next
      case False
      with m 1(2) have e: "str_nat (m div 10) = str_nat (n div 10)"
        and d: "digit_char (m mod 10) = digit_char (n mod 10)"
        by (simp_all add: str_nat.simps [of m] str_nat.simps [of n])
      from 1(1) [OF m e] have "m div 10 = n div 10" .
      moreover from d have "m mod 10 = n mod 10" by (intro digit_char_inj) simp_all
      ultimately show ?thesis by (metis div_mult_mod_eq)
    qed
  qed
qed

lemma str_in_str_nat:
  assumes "p \<noteq> []" "hd p \<notin> set ''0123456789''"
  shows "str_in p (str_nat n @ s) = str_in p s"
proof -
  have "set d \<subseteq> set ''0123456789'' \<Longrightarrow> str_in p (d @ s) = str_in p s" for d
  proof (induction d)
    case Nil
    show ?case by simp
  next
    case (Cons c d)
    from assms obtain a q where p: "p = a # q" and a: "a \<notin> set ''0123456789''"
      by (cases p) auto
    from Cons.prems have "c \<in> set ''0123456789''" by simp
    with a have "a \<noteq> c" by blast
    with Cons p show ?case by simp
  qed
  then show ?thesis using set_str_nat by blast
qed

lemma update_fresh: "k \<notin> fst ` set al \<Longrightarrow> AList.update k v al = al @ [(k, v)]"
  by (induction al) auto

section \<open>The loops and the initialisation pass in closed form\<close>

lemmas ctor_defs = Conv2d_init_def BatchNorm2d_init_def Linear_init_def negative_dimension_def
  model_name_error_def

lemma conv_block_Inr:
  "conv_block a b k s g = Inr m \<Longrightarrow> m = conv_block_built a b k s g"
  by (simp add: conv_block_def conv_block_built_def ctor_defs split: if_splits)

lemma conv_block_ok:
  "0 < g \<Longrightarrow> a mod g = 0 \<Longrightarrow> b mod g = 0 \<Longrightarrow> 0 \<le> b \<Longrightarrow> 0 \<le> a div g \<Longrightarrow> 0 \<le> k \<Longrightarrow>
   conv_block a b k s g = Inr (conv_block_built a b k s g)"
  by (simp add: conv_block_def conv_block_built_def ctor_defs)

lemma conv_block_err:
  "conv_block a b k s g = Inl e \<Longrightarrow> e \<noteq> model_name_error"
  by (simp add: conv_block_def ctor_defs split: if_splits) auto

lemma DwsConvBlock_init_Inr:
  assumes "DwsConvBlock_init a b s = Inr m"
  shows "m = DwsConvBlock_built a b s"
proof -
  from assms obtain dw where dw: "dwconv3x3_block a a s = Inr dw"
    by (cases "dwconv3x3_block a a s") (simp_all add: DwsConvBlock_init_def)
  with assms obtain pw where pw: "conv1x1_block a b = Inr pw"
    by (cases "conv1x1_block a b") (simp_all add: DwsConvBlock_init_def)
  from dw have "dw = conv_block_built a a 3 s a"
    unfolding dwconv3x3_block_def by (rule conv_block_Inr)
  moreover from pw have "pw = conv_block_built a b 1 1 1"
    unfolding conv1x1_block_def by (rule conv_block_Inr)
  ultimately show ?thesis
    using assms dw pw by (simp add: DwsConvBlock_init_def DwsConvBlock_built_def add_module_def)
qed

lemma DwsConvBlock_init_ok:
  assumes "0 < a" and "0 \<le> b"
  shows "DwsConvBlock_init a b s = Inr (DwsConvBlock_built a b s)"
proof -
  from assms have "dwconv3x3_block a a s = Inr (conv_block_built a a 3 s a)"
    unfolding dwconv3x3_block_def by (intro conv_block_ok) simp_all
  moreover from assms have "conv1x1_block a b = Inr (conv_block_built a b 1 1 1)"
    unfolding conv1x1_block_def by (intro conv_block_ok) simp_all
  ultimately show ?thesis
    by (simp add: DwsConvBlock_init_def DwsConvBlock_built_def add_module_def)
qed

lemma DwsConvBlock_init_err:
  assumes "DwsConvBlock_init a b s = Inl e"
  shows "e \<noteq> model_name_error"
proof (cases "dwconv3x3_block a a s")
  case (Inl e')
  with assms have "e' = e" by (simp add: DwsConvBlock_init_def)
  with Inl show ?thesis unfolding dwconv3x3_block_def by (simp add: conv_block_err)
next
  case dw: (Inr dw)
  show ?thesis
  proof (cases "conv1x1_block a b")
    case (Inl e')
    with assms dw have "e' = e" by (simp add: DwsConvBlock_init_def)
    with Inl show ?thesis unfolding conv1x1_block_def by (simp add: conv_block_err)
  next
    case (Inr pw)
    with assms dw show ?thesis by (simp add: DwsConvBlock_init_def)
  qed
qed

lemma fresh_step:
  assumes "\<forall>k\<ge>j. p @ str_nat (k + 1) \<notin> fst ` set al"
  shows "\<forall>k\<ge>Suc j. p @ str_nat (k + 1) \<notin> fst ` set (al @ [(p @ str_nat (j + 1), u)])"
proof (intro allI impI)
  fix k assume k: "Suc j \<le> k"
  with assms have "p @ str_nat (k + 1) \<notin> fst ` set al" by simp
  moreover have "str_nat (k + 1) \<noteq> str_nat (j + 1)"
    using k str_nat_inj [of "k + 1" "j + 1"] by auto
  ultimately show "p @ str_nat (k + 1) \<notin> fst ` set (al @ [(p @ str_nat (j + 1), u)])" by simp
qed

lemma unit_loop_step:
  assumes "''unit'' @ str_nat (j + 1) \<notin> fst ` set al"
    and "DwsConvBlock_init inc x (unit_stride_of fss i j) = Inr u"
  shows "unit_loop fss i (enumerate j (x # cs)) (Module c ps al, inc) =
         unit_loop fss i (enumerate (Suc j) cs)
           (Module c ps (al @ [(''unit'' @ str_nat (j + 1), u)]), x)"
  using assms by (simp add: add_module_def update_fresh unit_stride_of_def)

lemma unit_loop_Inr:
  "\<forall>k\<ge>j. ''unit'' @ str_nat (k + 1) \<notin> fst ` set al \<Longrightarrow>
   unit_loop fss i (enumerate j cs) (Module c ps al, inc) = Inr (st, inc') \<Longrightarrow>
   st = Module c ps (al @ units_of DwsConvBlock_built fss i j inc cs) \<and> inc' = last (inc # cs)"
proof (induction cs arbitrary: j al inc)
  case Nil
  then show ?case by simp
next
  case (Cons x cs)
  from Cons.prems(1) have fresh: "''unit'' @ str_nat (j + 1) \<notin> fst ` set al" by blast
  from Cons.prems(2) obtain u where u: "DwsConvBlock_init inc x (unit_stride_of fss i j) = Inr u"
    by (cases "DwsConvBlock_init inc x (unit_stride_of fss i j)")
      (simp_all add: unit_stride_of_def)
  then have b: "u = DwsConvBlock_built inc x (unit_stride_of fss i j)"
    by (rule DwsConvBlock_init_Inr)
  from Cons.prems(2) have "unit_loop fss i (enumerate (Suc j) cs)
           (Module c ps (al @ [(''unit'' @ str_nat (j + 1), u)]), x) = Inr (st, inc')"
    by (simp only: unit_loop_step [OF fresh u])
  from Cons.IH [OF fresh_step [OF Cons.prems(1)] this] b show ?case by simp
qed

lemma unit_loop_ok:
  "\<forall>k\<ge>j. ''unit'' @ str_nat (k + 1) \<notin> fst ` set al \<Longrightarrow> 0 < inc \<Longrightarrow> \<forall>x\<in>set cs. 0 < x \<Longrightarrow>
   unit_loop fss i (enumerate j cs) (Module c ps al, inc) =
     Inr (Module c ps (al @ units_of DwsConvBlock_built fss i j inc cs), last (inc # cs))"
proof (induction cs arbitrary: j al inc)
  case Nil
  then show ?case by simp
next
  case (Cons x cs)
  from Cons.prems(1) have fresh: "''unit'' @ str_nat (j + 1) \<notin> fst ` set al" by blast
  from Cons.prems have x: "0 < x" and rest: "\<forall>y\<in>set cs. 0 < y" by simp_all
  from Cons.prems(2) x
  have u: "DwsConvBlock_init inc x (unit_stride_of fss i j)
             = Inr (DwsConvBlock_built inc x (unit_stride_of fss i j))"
    by (intro DwsConvBlock_init_ok) simp_all
  show ?case
    by (simp only: unit_loop_step [OF fresh u] Cons.IH [OF fresh_step [OF Cons.prems(1)] x rest])
      simp
qed

lemma unit_loop_err:
  "unit_loop fss i xs (st, inc) = Inl e \<Longrightarrow> e \<noteq> model_name_error"
proof (induction xs arbitrary: st inc)
  case Nil
  then show ?case by simp
next
  case (Cons a xs)
  obtain j out where a: "a = (j, out)" by (cases a)
  show ?case
  proof (cases "DwsConvBlock_init inc out (if j = 0 \<and> (i \<noteq> 0 \<or> fss) then 2 else 1)")
    case (Inl e')
    with Cons.prems a have "e' = e" by simp
    with Inl show ?thesis by (simp add: DwsConvBlock_init_err)
  next
    case (Inr u)
    with Cons.prems a have "unit_loop fss i xs (add_module st (''unit'' @ str_nat (j + 1)) u, out) = Inl e"
      by simp
    then show ?thesis by (rule Cons.IH)
  qed
qed

lemma stage_loop_step:
  assumes "''stage'' @ str_nat (i + 1) \<notin> fst ` set al"
    and "unit_loop fss i (enumerate 0 x) (nn_Sequential [], inc) = Inr (st, inc')"
  shows "stage_loop fss (enumerate i (x # cs)) (Module c ps al, inc) =
         stage_loop fss (enumerate (Suc i) cs)
           (Module c ps (al @ [(''stage'' @ str_nat (i + 1), st)]), inc')"
  using assms by (simp add: add_module_def update_fresh)

lemma last_last_concat: "last (last (inc # x) # concat cs) = last (inc # concat (x # cs))"
  by (cases "concat cs = []") (auto simp: last_append)

lemma stage_loop_Inr:
  "\<forall>k\<ge>i. ''stage'' @ str_nat (k + 1) \<notin> fst ` set al \<Longrightarrow>
   stage_loop fss (enumerate i cs) (Module c ps al, inc) = Inr (ft, inc') \<Longrightarrow>
   ft = Module c ps (al @ stages_of DwsConvBlock_built fss i inc cs) \<and> inc' = last (inc # concat cs)"
proof (induction cs arbitrary: i al inc)
  case Nil
  then show ?case by simp
next
  case (Cons x cs)
  from Cons.prems(1) have fresh: "''stage'' @ str_nat (i + 1) \<notin> fst ` set al" by blast
  from Cons.prems(2) obtain st inc1
    where u: "unit_loop fss i (enumerate 0 x) (nn_Sequential [], inc) = Inr (st, inc1)"
    by (cases "unit_loop fss i (enumerate 0 x) (nn_Sequential [], inc)") auto
  then have "unit_loop fss i (enumerate 0 x) (Module Sequential [] [], inc) = Inr (st, inc1)"
    by (simp add: nn_Sequential_def)
  then have b: "st = Module Sequential [] ([] @ units_of DwsConvBlock_built fss i 0 inc x)
      \<and> inc1 = last (inc # x)"
    by (intro unit_loop_Inr) simp_all
  from Cons.prems(2) have "stage_loop fss (enumerate (Suc i) cs)
           (Module c ps (al @ [(''stage'' @ str_nat (i + 1), st)]), inc1) = Inr (ft, inc')"
    by (simp only: stage_loop_step [OF fresh u])
  from Cons.IH [OF fresh_step [OF Cons.prems(1)] this] b show ?case
    by (simp add: last_last_concat del: last.simps concat.simps)
qed

lemma stage_loop_ok:
  "\<forall>k\<ge>i. ''stage'' @ str_nat (k + 1) \<notin> fst ` set al \<Longrightarrow> 0 < inc \<Longrightarrow>
   \<forall>x\<in>set (concat cs). 0 < x \<Longrightarrow>
   stage_loop fss (enumerate i cs) (Module c ps al, inc) =
     Inr (Module c ps (al @ stages_of DwsConvBlock_built fss i inc cs), last (inc # concat cs))"
proof (induction cs arbitrary: i al inc)
  case Nil
  then show ?case by simp
next
  case (Cons x cs)
  from Cons.prems(1) have fresh: "''stage'' @ str_nat (i + 1) \<notin> fst ` set al" by blast
  from Cons.prems(3) have x: "\<forall>y\<in>set x. 0 < y" and rest: "\<forall>y\<in>set (concat cs). 0 < y"
    by simp_all
  from Cons.prems(2) x have l: "0 < last (inc # x)" by (cases "x = []") simp_all
  have "unit_loop fss i (enumerate 0 x) (Module Sequential [] [], inc) =
     Inr (Module Sequential [] ([] @ units_of DwsConvBlock_built fss i 0 inc x), last (inc # x))"
    using Cons.prems(2) x by (intro unit_loop_ok) simp_all
  then have u: "unit_loop fss i (enumerate 0 x) (nn_Sequential [], inc) =
     Inr (Module Sequential [] (units_of DwsConvBlock_built fss i 0 inc x), last (inc # x))"
    by (simp add: nn_Sequential_def)
  show ?case
    by (simp only: stage_loop_step [OF fresh u] Cons.IH [OF fresh_step [OF Cons.prems(1)] l rest])
      (simp add: last_last_concat del: last.simps concat.simps)
qed

lemma stage_loop_err:
  "stage_loop fss xs (ft, inc) = Inl e \<Longrightarrow> e \<noteq> model_name_error"
proof (induction xs arbitrary: ft inc)
  case Nil
  then show ?case by simp
next
  case (Cons a xs)
  obtain i cps where a: "a = (i, cps)" by (cases a)
  show ?case
  proof (cases "unit_loop fss i (enumerate 0 cps) (nn_Sequential [], inc)")
    case (Inl e')
    with Cons.prems a have "e' = e" by simp
    with Inl show ?thesis by (simp add: unit_loop_err)
  next
    case (Inr r)
    obtain st inc1 where r: "r = (st, inc1)" by (cases r)
    with Inr Cons.prems a
    have "stage_loop fss xs (add_module ft (''stage'' @ str_nat (i + 1)) st, inc1) = Inl e"
      by simp
    then show ?thesis by (rule Cons.IH)
  qed
qed

lemmas block_defs = DwsConvBlock_built_def DwsConvBlock_after_def conv_block_built_def
  conv_block_after_def nn_Conv2d_def nn_BatchNorm2d_def nn_ReLU_def nn_AvgPool2d_def nn_Linear_def
  add_module_def

lemmas init_defs = init_module_def init_kaiming_normal_def init_constant_def sub_prefix_def

lemma str_in_str_nat_end:
  assumes "p \<noteq> []" "hd p \<notin> set ''0123456789''"
  shows "str_in p (str_nat n) = False"
  using str_in_str_nat [OF assms, of n "[]"] assms(1) by simp

lemma init_unit:
  "init_params_from (''features.stage'' @ str_nat a @ ''.unit'' @ str_nat b) (DwsConvBlock_built x y s)
     = Inr (DwsConvBlock_after x y s)"
  by (simp add: block_defs init_defs str_in_str_nat str_in_str_nat_end)

lemma init_units:
  "init_params_children (''features.stage'' @ str_nat a) (units_of DwsConvBlock_built fss i j inc cs)
     = Inr (units_of DwsConvBlock_after fss i j inc cs)"
proof (induction cs arbitrary: j inc)
  case Nil
  show ?case by simp
next
  case (Cons c cs)
  have "sub_prefix (''features.stage'' @ str_nat a) (''unit'' @ str_nat (j + 1))
          = ''features.stage'' @ str_nat a @ ''.unit'' @ str_nat (j + 1)"
    by (simp add: sub_prefix_def)
  with Cons show ?case by (simp add: init_unit del: append.simps)
qed

lemma init_stage:
  "init_params_from (''features.stage'' @ str_nat a)
     (Module Sequential [] (units_of DwsConvBlock_built fss i j inc cs))
     = Inr (Module Sequential [] (units_of DwsConvBlock_after fss i j inc cs))"
proof -
  have "init_module (''features.stage'' @ str_nat a) m = Inr m" for m
    by (simp add: init_module_def str_in_str_nat_end)
  then show ?thesis by (simp add: init_units del: append.simps)
qed

lemma init_stages:
  "init_params_children ''features'' (stages_of DwsConvBlock_built fss i inc cs)
     = Inr (stages_of DwsConvBlock_after fss i inc cs)"
proof (induction cs arbitrary: i inc)
  case Nil
  show ?case by simp
next
  case (Cons c cs)
  have "sub_prefix ''features'' (''stage'' @ str_nat (i + 1)) = ''features.stage'' @ str_nat (i + 1)"
    by (simp add: sub_prefix_def)
  with Cons show ?case by (simp add: init_stage del: append.simps init_params_from.simps)
qed

lemma init_params_children_append:
  "init_params_children pfx (xs @ ys) =
     (case init_params_children pfx xs of
        Inl e \<Rightarrow> Inl e
      | Inr xs' \<Rightarrow>
          (case init_params_children pfx ys of
             Inl e \<Rightarrow> Inl e
           | Inr ys' \<Rightarrow> Inr (xs' @ ys')))"
  by (induction xs) (auto split: sum.splits)

lemma final_pool_fresh: "''final_pool'' \<notin> fst ` set ((''init_block'', m) # stages_of mk fss i inc cs)"
  by (induction cs arbitrary: i inc) auto

text \<open>
  The network before the initialisation pass, when every constructor has returned,
  and what the pass makes of it.
\<close>

lemma init_params_built:
  "init_params
     (Module (MobileNet sz nc) []
        [(''features'',
          Module Sequential []
            ((''init_block'', conv_block_built inc c 3 2 1)
               # stages_of DwsConvBlock_built fss 0 c cs @ [(''final_pool'', nn_AvgPool2d 7 1)])),
         (''output'', nn_Linear (last (c # concat cs)) nc True)])
   = Inr (MobileNet_after ((c # r) # cs) fss inc sz nc)"
proof -
  have feat: "init_params_children ''features''
          ((''init_block'', conv_block_built inc c 3 2 1)
             # stages_of DwsConvBlock_built fss 0 c cs @ [(''final_pool'', nn_AvgPool2d 7 1)])
        = Inr ((''init_block'', conv_block_after Framework_default inc c 3 2 1)
                # stages_of DwsConvBlock_after fss 0 c cs @ [(''final_pool'', nn_AvgPool2d 7 1)])"
    by (simp add: init_params_children_append init_stages block_defs init_defs)
  show ?thesis
    unfolding init_params_def MobileNet_after_def
    using feat
    by (simp add: init_module_def init_kaiming_normal_def init_constant_def sub_prefix_def
          nn_Linear_def)
qed

lemma MobileNet_init_cases:
  assumes b: "conv3x3_block inc c 2 = Inr blk"
    and l: "stage_loop fss (enumerate 0 cs) (Module Sequential [] [(''init_block'', blk)], c)
              = Inr (ft, inc')"
    and o: "Linear_init inc' nc True = Inr out"
  shows "MobileNet_init ((c # r) # cs) fss inc sz nc = Inr (MobileNet_after ((c # r) # cs) fss inc sz nc)"
proof -
  from b have blk: "blk = conv_block_built inc c 3 2 1"
    unfolding conv3x3_block_def by (rule conv_block_Inr)
  from l have "ft = Module Sequential []
        ([(''init_block'', blk)] @ stages_of DwsConvBlock_built fss 0 c cs)
      \<and> inc' = last (c # concat cs)"
    by (intro stage_loop_Inr) simp_all
  then have ft: "ft = Module Sequential []
        ((''init_block'', blk) # stages_of DwsConvBlock_built fss 0 c cs)"
    and inc': "inc' = last (c # concat cs)" by simp_all
  from o have out: "out = nn_Linear inc' nc True"
    by (simp add: Linear_init_def split: if_splits)
  have upd: "AList.update ''final_pool'' p ((''init_block'', blk) # stages_of DwsConvBlock_built fss 0 c cs)
       = ((''init_block'', blk) # stages_of DwsConvBlock_built fss 0 c cs) @ [(''final_pool'', p)]" for p
    by (rule update_fresh) (rule final_pool_fresh)
  have "MobileNet_init ((c # r) # cs) fss inc sz nc =
      init_params
       (Module (MobileNet sz nc) []
        [(''features'',
          Module Sequential []
            ((''init_block'', conv_block_built inc c 3 2 1)
               # stages_of DwsConvBlock_built fss 0 c cs @ [(''final_pool'', nn_AvgPool2d 7 1)])),
         (''output'', nn_Linear (last (c # concat cs)) nc True)])"
    unfolding MobileNet_init_def
    using b l o upd
    by (simp add: nn_Sequential_def add_module_def ft blk inc' out del: last.simps)
  then show ?thesis by (simp only: init_params_built)
qed

lemma MobileNet_init_Inr:
  assumes "MobileNet_init channels fss inc sz nc = Inr net"
  shows "channels \<noteq> [] \<and> hd channels \<noteq> [] \<and> net = MobileNet_after channels fss inc sz nc"
proof (cases channels)
  case Nil
  with assms show ?thesis by (simp add: MobileNet_init_def)
next
  case (Cons c0 cs)
  show ?thesis
  proof (cases c0)
    case Nil
    with Cons assms show ?thesis by (simp add: MobileNet_init_def)
  next
    case c0: (Cons c r)
    with Cons assms have a: "MobileNet_init ((c # r) # cs) fss inc sz nc = Inr net" by simp
    then obtain blk where b: "conv3x3_block inc c 2 = Inr blk"
      by (cases "conv3x3_block inc c 2") (simp_all add: MobileNet_init_def)
    with a obtain ft inc'
      where l: "stage_loop fss (enumerate 0 cs) (Module Sequential [] [(''init_block'', blk)], c)
              = Inr (ft, inc')"
      by (cases "stage_loop fss (enumerate 0 cs) (Module Sequential [] [(''init_block'', blk)], c)")
        (auto simp: MobileNet_init_def nn_Sequential_def add_module_def)
    with a b obtain out where o: "Linear_init inc' nc True = Inr out"
      by (cases "Linear_init inc' nc True")
        (simp_all add: MobileNet_init_def nn_Sequential_def add_module_def)
    from MobileNet_init_cases [OF b l o, of r sz] a
    have "net = MobileNet_after ((c # r) # cs) fss inc sz nc" by simp
    with Cons c0 show ?thesis by simp
  qed
qed

lemma MobileNet_init_ok:
  assumes "0 \<le> inc" and "0 \<le> nc" and "0 < c" and "\<forall>x\<in>set (concat cs). 0 < x"
  shows "MobileNet_init ((c # r) # cs) fss inc sz nc = Inr (MobileNet_after ((c # r) # cs) fss inc sz nc)"
proof -
  from assms have b: "conv3x3_block inc c 2 = Inr (conv_block_built inc c 3 2 1)"
    unfolding conv3x3_block_def by (intro conv_block_ok) simp_all
  have l: "stage_loop fss (enumerate 0 cs)
             (Module Sequential [] [(''init_block'', conv_block_built inc c 3 2 1)], c)
      = Inr (Module Sequential []
               ([(''init_block'', conv_block_built inc c 3 2 1)]
                  @ stages_of DwsConvBlock_built fss 0 c cs),
             last (c # concat cs))"
    using assms(3,4) by (intro stage_loop_ok) simp_all
  have "last (c # concat cs) \<in> set (c # concat cs)" by (rule last_in_set) simp
  with assms(3,4) have "0 \<le> last (c # concat cs)"
    by (auto simp del: last.simps simp: less_imp_le)
  with assms(2) have o: "Linear_init (last (c # concat cs)) nc True
      = Inr (nn_Linear (last (c # concat cs)) nc True)"
    by (simp add: Linear_init_def del: last.simps)
  from b l o show ?thesis by (rule MobileNet_init_cases)
qed

lemma MobileNet_init_err:
  assumes "MobileNet_init channels fss inc sz nc = Inl e"
  shows "e \<noteq> model_name_error"
proof (cases channels)
  case Nil
  with assms show ?thesis by (auto simp: MobileNet_init_def model_name_error_def)
next
  case (Cons c0 cs)
  show ?thesis
  proof (cases c0)
    case Nil
    with Cons assms show ?thesis by (auto simp: MobileNet_init_def model_name_error_def)
  next
    case c0: (Cons c r)
    with Cons assms have a: "MobileNet_init ((c # r) # cs) fss inc sz nc = Inl e" by simp
    show ?thesis
    proof (cases "conv3x3_block inc c 2")
      case (Inl e')
      with a have "e' = e" by (simp add: MobileNet_init_def)
      with Inl show ?thesis unfolding conv3x3_block_def by (simp add: conv_block_err)
    next
      case b: (Inr blk)
      show ?thesis
      proof (cases "stage_loop fss (enumerate 0 cs) (Module Sequential [] [(''init_block'', blk)], c)")
        case (Inl e')
        with a b have "e' = e"
          by (simp add: MobileNet_init_def nn_Sequential_def add_module_def)
        with Inl show ?thesis by (simp add: stage_loop_err)
      next
        case (Inr p)
        obtain ft inc' where p: "p = (ft, inc')" by (cases p)
        show ?thesis
        proof (cases "Linear_init inc' nc True")
          case (Inl e')
          with a b Inr p have "e' = e"
            by (simp add: MobileNet_init_def nn_Sequential_def add_module_def)
          with Inl show ?thesis
            by (auto simp: Linear_init_def negative_dimension_def model_name_error_def
                split: if_splits)
        next
          case o: (Inr out)
          from Inr p have "stage_loop fss (enumerate 0 cs)
              (Module Sequential [] [(''init_block'', blk)], c) = Inr (ft, inc')" by simp
          from MobileNet_init_cases [OF b this o, of r sz] a show ?thesis by simp
        qed
      qed
    qed
  qed
qed

section \<open>The channel table of the factory\<close>






section \<open>The injected activation\<close>

text \<open>
  Claim C6. With an injected activation tensor of zero rows, the forward pass of
  \<^verbatim>\<open>MyMobilenetV1\<close> returns what it returns with no injected activation, for every
  input, every network and whatever the layers compute.
\<close>

theorem forward_zero_injection:
  "forward apply_layer view self x (Some []) return_lat_acts =
   forward apply_layer view self x None return_lat_acts"
  by (simp add: forward_def)

text \<open>Claim C6 on a two-row input, with layers that leave their input unchanged.\<close>

theorem forward_zero_injection_witness:
  "forward (\<lambda>m t. t) (\<lambda>t. t)
     \<lparr>lat_features = nn_Sequential [nn_ReLU], end_features = nn_Sequential [nn_AvgPool2d 4 4],
      output_layer = nn_Linear 1024 50 False\<rparr> [1 :: int, 2] (Some []) True
   = forward (\<lambda>m t. t) (\<lambda>t. t)
     \<lparr>lat_features = nn_Sequential [nn_ReLU], end_features = nn_Sequential [nn_AvgPool2d 4 4],
      output_layer = nn_Linear 1024 50 False\<rparr> [1 :: int, 2] None True"
  by (rule forward_zero_injection)

section \<open>Errors of the factory\<close>

lemma get_channels_unsupported:
  "version \<noteq> ''orig'' \<Longrightarrow> version \<noteq> ''fd'' \<Longrightarrow>
   get_channels version s = Inl (ValueError (''Unsupported MobileNet version '' @ version))"
  by (simp add: get_channels_def base_table_def)

lemma scale_row_err: "scale_row s ci = Inl e \<Longrightarrow> e \<noteq> model_name_error"
proof (induction ci)
  case Nil
  then show ?case by simp
next
  case (Cons c ci)
  show ?case
  proof (cases "py_int (mul_int_float c s)")
    case (Inl e')
    with Cons.prems have "e' = e" by simp
    with Inl show ?thesis
      by (cases "mul_int_float c s") (auto simp: model_name_error_def)
  next
    case (Inr v)
    with Cons.prems have "scale_row s ci = Inl e" by (simp split: sum.splits)
    then show ?thesis by (rule Cons.IH)
  qed
qed

lemma scale_channels_err: "scale_channels s channels = Inl e \<Longrightarrow> e \<noteq> model_name_error"
proof (induction channels)
  case Nil
  then show ?case by simp
next
  case (Cons ci channels)
  show ?case
  proof (cases "scale_row s ci")
    case (Inl e')
    with Cons.prems have "e' = e" by simp
    with Inl show ?thesis by (simp add: scale_row_err)
  next
    case (Inr row)
    with Cons.prems have "scale_channels s channels = Inl e" by (simp split: sum.splits)
    then show ?thesis by (rule Cons.IH)
  qed
qed

lemma get_channels_err:
  assumes "get_channels version s = Inl e"
  shows "e \<noteq> model_name_error"
proof (cases "base_table version")
  case (Inl e')
  with assms have "e' = e" by (simp add: get_channels_def)
  with Inl show ?thesis
    by (simp add: base_table_def model_name_error_def split: if_splits) auto
next
  case (Inr p)
  obtain base flag where p: "p = (base, flag)" by (cases p)
  with Inr assms have "scale_channels s base = Inl e"
    by (simp add: get_channels_def split: if_splits sum.splits)
  then show ?thesis by (rule scale_channels_err)
qed

lemma get_mobilenet_not_model_name_error:
  assumes "name \<noteq> []"
  shows "snd (get_mobilenet version s (Some name) pretrained root_dir kwargs) \<noteq> Inl model_name_error"
proof (cases "get_channels version s")
  case (Inl e)
  then have "e \<noteq> model_name_error" by (rule get_channels_err)
  with Inl show ?thesis by (simp add: get_mobilenet_def)
next
  case (Inr p)
  obtain channels flag where p: "p = (channels, flag)" by (cases p)
  show ?thesis
  proof (cases "MobileNet_init channels flag (kw_in_channels kwargs) (kw_in_size kwargs)
                  (kw_num_classes kwargs)")
    case (Inl e)
    then have "e \<noteq> model_name_error" by (rule MobileNet_init_err)
    with Inl Inr p show ?thesis by (simp add: get_mobilenet_def)
  next
    case net: (Inr net)
    with Inr p assms show ?thesis by (simp add: get_mobilenet_def)
  qed
qed

lemma get_mobilenet_loads:
  assumes "get_channels version s = Inr (channels, flag)"
    and "MobileNet_init channels flag (kw_in_channels kwargs) (kw_in_size kwargs)
           (kw_num_classes kwargs) = Inr net"
    and "name \<noteq> []"
  shows "get_mobilenet version s (Some name) True root_dir kwargs =
           ([Construct_MobileNet channels flag, Download_model name root_dir],
            Inr (download_model net name root_dir))"
  using assms by (simp add: get_mobilenet_def)

text \<open>
  Claim C7, as amended. For a version tag other than \<open>orig\<close> and \<open>fd\<close>,
  \<^verbatim>\<open>get_mobilenet\<close> raises the unsupported-version error at once: nothing has been
  constructed and nothing loaded. When pretrained loading is requested and the
  model name is \<^verbatim>\<open>None\<close> or empty, the network is constructed first, and when the
  constructor has returned the model-name error is raised; the work done is that
  one construction. With no model name the loader is never called, whatever the
  other arguments.
\<close>

theorem get_mobilenet_errors:
  "(version \<noteq> ''orig'' \<and> version \<noteq> ''fd'' \<longrightarrow>
      get_mobilenet version width_scale model_name pretrained root_dir kwargs =
        ([], Inl (ValueError (''Unsupported MobileNet version '' @ version))))
   \<and> ((model_name = None \<or> model_name = Some [])
        \<and> get_channels version width_scale = Inr (channels, flag)
        \<and> MobileNet_init channels flag (kw_in_channels kwargs) (kw_in_size kwargs)
             (kw_num_classes kwargs) = Inr net \<longrightarrow>
        get_mobilenet version width_scale model_name True root_dir kwargs =
          ([Construct_MobileNet channels flag], Inl model_name_error))
   \<and> (model_name = None \<or> model_name = Some [] \<longrightarrow>
        (\<forall>name r. Download_model name r
           \<notin> set (fst (get_mobilenet version width_scale model_name pretrained root_dir kwargs))))"
proof (intro conjI impI)
  assume "version \<noteq> ''orig'' \<and> version \<noteq> ''fd''"
  then have "get_channels version width_scale =
      Inl (ValueError (''Unsupported MobileNet version '' @ version))"
    by (simp add: get_channels_unsupported)
  then show "get_mobilenet version width_scale model_name pretrained root_dir kwargs =
        ([], Inl (ValueError (''Unsupported MobileNet version '' @ version)))"
    by (simp add: get_mobilenet_def)
next
  assume a: "(model_name = None \<or> model_name = Some [])
        \<and> get_channels version width_scale = Inr (channels, flag)
        \<and> MobileNet_init channels flag (kw_in_channels kwargs) (kw_in_size kwargs)
             (kw_num_classes kwargs) = Inr net"
  then have n: "model_name = None \<or> model_name = Some []" by (rule conjunct1)
  from a have g: "get_channels version width_scale = Inr (channels, flag)" by simp
  from a have i: "MobileNet_init channels flag (kw_in_channels kwargs) (kw_in_size kwargs)
             (kw_num_classes kwargs) = Inr net" by simp
  from n show "get_mobilenet version width_scale model_name True root_dir kwargs =
          ([Construct_MobileNet channels flag], Inl model_name_error)"
    unfolding get_mobilenet_def by (auto simp: g i)
next
  assume n: "model_name = None \<or> model_name = Some []"
  show "\<forall>name r. Download_model name r
           \<notin> set (fst (get_mobilenet version width_scale model_name pretrained root_dir kwargs))"
  proof (cases "get_channels version width_scale")
    case (Inl e)
    then show ?thesis by (simp add: get_mobilenet_def)
  next
    case (Inr p)
    obtain ch fl where p: "p = (ch, fl)" by (cases p)
    show ?thesis
    proof (cases "MobileNet_init ch fl (kw_in_channels kwargs) (kw_in_size kwargs)
                    (kw_num_classes kwargs)")
      case (Inl e)
      with Inr p show ?thesis by (simp add: get_mobilenet_def)
    next
      case net: (Inr net')
      from n show ?thesis
        unfolding get_mobilenet_def by (auto simp: Inr p net)
    qed
  qed
qed

lemma orig_table_ok:
  "MobileNet_init [[32], [64], [128, 128], [256, 256], [512, 512, 512, 512, 512, 512], [1024, 1024]]
     False 3 (224, 224) 1000 =
   Inr (MobileNet_after
          [[32], [64], [128, 128], [256, 256], [512, 512, 512, 512, 512, 512], [1024, 1024]]
          False 3 (224, 224) 1000)"
  by (rule MobileNet_init_ok) simp_all

lemma fd_table_ok:
  "MobileNet_init [[32], [64], [128, 128], [256, 256], [512, 512, 512, 512, 512, 1024]]
     True 3 (224, 224) 1000 =
   Inr (MobileNet_after
          [[32], [64], [128, 128], [256, 256], [512, 512, 512, 512, 512, 1024]]
          True 3 (224, 224) 1000)"
  by (rule MobileNet_init_ok) simp_all

text \<open>
  Claim C7 on the version tag \<open>v2\<close>, and on \<open>orig\<close> with pretrained loading and an
  empty model name.
\<close>

theorem get_mobilenet_errors_witness:
  "get_mobilenet ''v2'' (Float 1) (Some ''mobilenet_w1'') True default_root default_kwargs =
     ([], Inl (ValueError ''Unsupported MobileNet version v2''))
   \<and> get_mobilenet ''orig'' (Float 1) (Some []) True default_root default_kwargs =
     ([Construct_MobileNet
         [[32], [64], [128, 128], [256, 256], [512, 512, 512, 512, 512, 512], [1024, 1024]] False],
      Inl model_name_error)"
proof -
  have g: "get_channels ''orig'' (Float 1) =
      Inr ([[32], [64], [128, 128], [256, 256], [512, 512, 512, 512, 512, 512], [1024, 1024]], False)"
    by (simp add: get_channels_def base_table_def)
  have "get_mobilenet ''v2'' (Float 1) (Some ''mobilenet_w1'') True default_root default_kwargs =
     ([], Inl (ValueError ''Unsupported MobileNet version v2''))"
    using get_mobilenet_errors [of "''v2''" "Float 1" "Some ''mobilenet_w1''" True default_root
        default_kwargs]
    by simp
  moreover have "get_mobilenet ''orig'' (Float 1) (Some []) True default_root default_kwargs =
     ([Construct_MobileNet
         [[32], [64], [128, 128], [256, 256], [512, 512, 512, 512, 512, 512], [1024, 1024]] False],
      Inl model_name_error)"
    using get_mobilenet_errors [of "''orig''" "Float 1" "Some []" False default_root default_kwargs
        "[[32], [64], [128, 128], [256, 256], [512, 512, 512, 512, 512, 512], [1024, 1024]]" False
        "MobileNet_after
          [[32], [64], [128, 128], [256, 256], [512, 512, 512, 512, 512, 512], [1024, 1024]]
          False 3 (224, 224) 1000"]
      g orig_table_ok
    by (simp add: default_kwargs_def)
  ultimately show ?thesis by (rule conjI)
qed

text \<open>
  Claim C7 as stated fails for the missing model name: in
  \<^verbatim>\<open>get_mobilenet('fd', 1.0, pretrained=True)\<close> the network has been constructed
  when the error is raised.
\<close>

theorem model_name_error_counterexample:
  "get_mobilenet ''fd'' (Float 1) None True default_root default_kwargs =
     ([Construct_MobileNet [[32], [64], [128, 128], [256, 256], [512, 512, 512, 512, 512, 1024]] True],
      Inl model_name_error)"
proof -
  have "get_channels ''fd'' (Float 1) =
      Inr ([[32], [64], [128, 128], [256, 256], [512, 512, 512, 512, 512, 1024]], True)"
    by (simp add: get_channels_def base_table_def)
  with fd_table_ok show ?thesis
    by (simp add: get_mobilenet_def default_kwargs_def)
qed

lemma variant_loads:
  assumes g: "get_channels version s = Inr ((c # r) # cs, flag)"
    and c: "0 < c" "\<forall>x\<in>set (concat cs). 0 < x"
    and n: "name \<noteq> []"
  shows "snd (get_mobilenet version s (Some name) True root_dir kwargs) \<noteq> Inl model_name_error
    \<and> (0 < kw_in_channels kwargs \<and> 0 < kw_num_classes kwargs \<longrightarrow>
         fst (get_mobilenet version s (Some name) True root_dir kwargs) =
           [Construct_MobileNet ((c # r) # cs) flag, Download_model name root_dir])"
proof (intro conjI impI)
  show "snd (get_mobilenet version s (Some name) True root_dir kwargs) \<noteq> Inl model_name_error"
    using n by (rule get_mobilenet_not_model_name_error)
next
  assume "0 < kw_in_channels kwargs \<and> 0 < kw_num_classes kwargs"
  with c have "MobileNet_init ((c # r) # cs) flag (kw_in_channels kwargs) (kw_in_size kwargs)
      (kw_num_classes kwargs) =
    Inr (MobileNet_after ((c # r) # cs) flag (kw_in_channels kwargs) (kw_in_size kwargs)
      (kw_num_classes kwargs))"
    by (intro MobileNet_init_ok) simp_all
  from get_mobilenet_loads [OF g this n]
  show "fst (get_mobilenet version s (Some name) True root_dir kwargs) =
           [Construct_MobileNet ((c # r) # cs) flag, Download_model name root_dir]"
    by simp
qed

text \<open>
  Claim C10. Each of the eight named variants, called with \<^verbatim>\<open>pretrained=True\<close>, never
  raises the model-name error, whatever the other arguments: it passes its own
  fixed, non-empty model name. With a positive number of input channels and of
  classes, the network is constructed and the loader is called with that name.
\<close>

theorem named_variants_have_model_name:
  "(snd (mobilenet_w1 True root_dir kwargs) \<noteq> Inl model_name_error
      \<and> (0 < kw_in_channels kwargs \<and> 0 < kw_num_classes kwargs \<longrightarrow>
           fst (mobilenet_w1 True root_dir kwargs) =
             [Construct_MobileNet
                [[32], [64], [128, 128], [256, 256], [512, 512, 512, 512, 512, 512], [1024, 1024]]
                False,
              Download_model ''mobilenet_w1'' root_dir]))
   \<and> (snd (mobilenet_w3d4 True root_dir kwargs) \<noteq> Inl model_name_error
      \<and> (0 < kw_in_channels kwargs \<and> 0 < kw_num_classes kwargs \<longrightarrow>
           fst (mobilenet_w3d4 True root_dir kwargs) =
             [Construct_MobileNet
                [[24], [48], [96, 96], [192, 192], [384, 384, 384, 384, 384, 384], [768, 768]]
                False,
              Download_model ''mobilenet_w3d4'' root_dir]))
   \<and> (snd (mobilenet_wd2 True root_dir kwargs) \<noteq> Inl model_name_error
      \<and> (0 < kw_in_channels kwargs \<and> 0 < kw_num_classes kwargs \<longrightarrow>
           fst (mobilenet_wd2 True root_dir kwargs) =
             [Construct_MobileNet
                [[16], [32], [64, 64], [128, 128], [256, 256, 256, 256, 256, 256], [512, 512]]
                False,
              Download_model ''mobilenet_wd2'' root_dir]))
   \<and> (snd (mobilenet_wd4 True root_dir kwargs) \<noteq> Inl model_name_error
      \<and> (0 < kw_in_channels kwargs \<and> 0 < kw_num_classes kwargs \<longrightarrow>
           fst (mobilenet_wd4 True root_dir kwargs) =
             [Construct_MobileNet
                [[8], [16], [32, 32], [64, 64], [128, 128, 128, 128, 128, 128], [256, 256]]
                False,
              Download_model ''mobilenet_wd4'' root_dir]))
   \<and> (snd (fdmobilenet_w1 True root_dir kwargs) \<noteq> Inl model_name_error
      \<and> (0 < kw_in_channels kwargs \<and> 0 < kw_num_classes kwargs \<longrightarrow>
           fst (fdmobilenet_w1 True root_dir kwargs) =
             [Construct_MobileNet
                [[32], [64], [128, 128], [256, 256], [512, 512, 512, 512, 512, 1024]]
                True,
              Download_model ''fdmobilenet_w1'' root_dir]))
   \<and> (snd (fdmobilenet_w3d4 True root_dir kwargs) \<noteq> Inl model_name_error
      \<and> (0 < kw_in_channels kwargs \<and> 0 < kw_num_classes kwargs \<longrightarrow>
           fst (fdmobilenet_w3d4 True root_dir kwargs) =
             [Construct_MobileNet
                [[24], [48], [96, 96], [192, 192], [384, 384, 384, 384, 384, 768]]
                True,
              Download_model ''fdmobilenet_w3d4'' root_dir]))
   \<and> (snd (fdmobilenet_wd2 True root_dir kwargs) \<noteq> Inl model_name_error
      \<and> (0 < kw_in_channels kwargs \<and> 0 < kw_num_classes kwargs \<longrightarrow>
           fst (fdmobilenet_wd2 True root_dir kwargs) =
             [Construct_MobileNet
                [[16], [32], [64, 64], [128, 128], [256, 256, 256, 256, 256, 512]]
                True,
              Download_model ''fdmobilenet_wd2'' root_dir]))
   \<and> (snd (fdmobilenet_wd4 True root_dir kwargs) \<noteq> Inl model_name_error
      \<and> (0 < kw_in_channels kwargs \<and> 0 < kw_num_classes kwargs \<longrightarrow>
           fst (fdmobilenet_wd4 True root_dir kwargs) =
             [Construct_MobileNet
                [[8], [16], [32, 32], [64, 64], [128, 128, 128, 128, 128, 256]]
                True,
              Download_model ''fdmobilenet_wd4'' root_dir]))"
proof -
  have g1: "get_channels ''orig'' (Float 1) =
      Inr ([[32], [64], [128, 128], [256, 256], [512, 512, 512, 512, 512, 512], [1024, 1024]], False)"
    by (simp add: get_channels_def base_table_def)
  have g2: "get_channels ''orig'' (Float (3 / 4)) =
      Inr ([[24], [48], [96, 96], [192, 192], [384, 384, 384, 384, 384, 384], [768, 768]], False)"
    by (simp add: get_channels_def base_table_def)
  have g3: "get_channels ''orig'' (Float (1 / 2)) =
      Inr ([[16], [32], [64, 64], [128, 128], [256, 256, 256, 256, 256, 256], [512, 512]], False)"
    by (simp add: get_channels_def base_table_def)
  have g4: "get_channels ''orig'' (Float (1 / 4)) =
      Inr ([[8], [16], [32, 32], [64, 64], [128, 128, 128, 128, 128, 128], [256, 256]], False)"
    by (simp add: get_channels_def base_table_def)
  have g5: "get_channels ''fd'' (Float 1) =
      Inr ([[32], [64], [128, 128], [256, 256], [512, 512, 512, 512, 512, 1024]], True)"
    by (simp add: get_channels_def base_table_def)
  have g6: "get_channels ''fd'' (Float (3 / 4)) =
      Inr ([[24], [48], [96, 96], [192, 192], [384, 384, 384, 384, 384, 768]], True)"
    by (simp add: get_channels_def base_table_def)
  have g7: "get_channels ''fd'' (Float (1 / 2)) =
      Inr ([[16], [32], [64, 64], [128, 128], [256, 256, 256, 256, 256, 512]], True)"
    by (simp add: get_channels_def base_table_def)
  have g8: "get_channels ''fd'' (Float (1 / 4)) =
      Inr ([[8], [16], [32, 32], [64, 64], [128, 128, 128, 128, 128, 256]], True)"
    by (simp add: get_channels_def base_table_def)
  show ?thesis
    unfolding mobilenet_w1_def mobilenet_w3d4_def mobilenet_wd2_def mobilenet_wd4_def
      fdmobilenet_w1_def fdmobilenet_w3d4_def fdmobilenet_wd2_def fdmobilenet_wd4_def
    by (intro conjI variant_loads [OF g1] variant_loads [OF g2] variant_loads [OF g3]
          variant_loads [OF g4] variant_loads [OF g5] variant_loads [OF g6] variant_loads [OF g7]
          variant_loads [OF g8]) simp_all
qed

text \<open>Claim C10 for the first and the last variant, with the default arguments.\<close>

theorem named_variants_have_model_name_witness:
  "snd (mobilenet_w1 True default_root default_kwargs) \<noteq> Inl model_name_error
   \<and> (0 :: int) < 3 \<and> (0 :: int) < 1000
   \<and> fst (mobilenet_w1 True default_root default_kwargs) =
        [Construct_MobileNet
           [[32], [64], [128, 128], [256, 256], [512, 512, 512, 512, 512, 512], [1024, 1024]]
           False,
         Download_model ''mobilenet_w1'' default_root]
   \<and> snd (fdmobilenet_wd4 True default_root default_kwargs) \<noteq> Inl model_name_error
   \<and> fst (fdmobilenet_wd4 True default_root default_kwargs) =
        [Construct_MobileNet
           [[8], [16], [32, 32], [64, 64], [128, 128, 128, 128, 128, 256]]
           True,
         Download_model ''fdmobilenet_wd4'' default_root]"
  using named_variants_have_model_name [of default_root default_kwargs]
  by (simp add: default_kwargs_def)

section \<open>Channel tables without stages\<close>

text \<open>
  Claim C9, as amended. For a channel table of exactly one entry whose first count
  is positive, with a positive number of input channels and of classes, the
  constructor returns the stem convolution block, the final pool and the linear
  classifier, with no stage. For the empty table, and for a table whose first entry
  is empty, \<^verbatim>\<open>channels[0][0]\<close> raises \<^verbatim>\<open>IndexError\<close>.
\<close>

theorem MobileNet_single_entry:
  "(0 < c \<and> 0 < in_channels \<and> 0 < num_classes \<longrightarrow>
      MobileNet_init [c # r] first_stage_stride in_channels in_size num_classes =
        Inr (Module (MobileNet in_size num_classes) []
               [(''features'',
                 Module Sequential []
                   [(''init_block'',
                     Module ConvBlock []
                       [(''conv'', Module (Conv2d in_channels c 3 2 1) [(''weight'', Framework_default)] []),
                        (''bn'', Module (BatchNorm2d c) [(''weight'', Constant 1), (''bias'', Constant 0)] []),
                        (''activ'', Module ReLU [] [])]),
                    (''final_pool'', Module (AvgPool2d 7 1) [] [])]),
                (''output'',
                 Module (Linear c num_classes)
                   [(''weight'', Kaiming_normal Fan_out), (''bias'', Constant 0)] [])]))
   \<and> MobileNet_init [] first_stage_stride in_channels in_size num_classes = Inl IndexError
   \<and> MobileNet_init ([] # cs) first_stage_stride in_channels in_size num_classes = Inl IndexError"
proof (intro conjI impI)
  assume "0 < c \<and> 0 < in_channels \<and> 0 < num_classes"
  then have "MobileNet_init [c # r] first_stage_stride in_channels in_size num_classes =
      Inr (MobileNet_after [c # r] first_stage_stride in_channels in_size num_classes)"
    by (intro MobileNet_init_ok) simp_all
  then show "MobileNet_init [c # r] first_stage_stride in_channels in_size num_classes =
        Inr (Module (MobileNet in_size num_classes) []
               [(''features'',
                 Module Sequential []
                   [(''init_block'',
                     Module ConvBlock []
                       [(''conv'', Module (Conv2d in_channels c 3 2 1) [(''weight'', Framework_default)] []),
                        (''bn'', Module (BatchNorm2d c) [(''weight'', Constant 1), (''bias'', Constant 0)] []),
                        (''activ'', Module ReLU [] [])]),
                    (''final_pool'', Module (AvgPool2d 7 1) [] [])]),
                (''output'',
                 Module (Linear c num_classes)
                   [(''weight'', Kaiming_normal Fan_out), (''bias'', Constant 0)] [])])"
    by (simp add: MobileNet_after_def conv_block_after_def nn_ReLU_def nn_AvgPool2d_def)
next
  show "MobileNet_init [] first_stage_stride in_channels in_size num_classes = Inl IndexError"
    by (simp add: MobileNet_init_def)
  show "MobileNet_init ([] # cs) first_stage_stride in_channels in_size num_classes = Inl IndexError"
    by (simp add: MobileNet_init_def)
qed

text \<open>
  Claim C9 as stated fails on the empty table: the constructor raises.
\<close>

theorem MobileNet_empty_table_counterexample:
  "MobileNet_init [] False 3 (224, 224) 1000 = Inl IndexError"
  by (simp add: MobileNet_init_def)

text \<open>
  Claim C9 on the table \<^verbatim>\<open>[[32]]\<close>.
\<close>

theorem MobileNet_single_entry_witness:
  "(0 :: int) < 32 \<and> (0 :: int) < 3 \<and> (0 :: int) < 1000
   \<and> MobileNet_init [[32]] False 3 (224, 224) 1000 =
     Inr (Module (MobileNet (224, 224) 1000) []
            [(''features'',
              Module Sequential []
                [(''init_block'',
                  Module ConvBlock []
                    [(''conv'', Module (Conv2d 3 32 3 2 1) [(''weight'', Framework_default)] []),
                     (''bn'', Module (BatchNorm2d 32) [(''weight'', Constant 1), (''bias'', Constant 0)] []),
                     (''activ'', Module ReLU [] [])]),
                 (''final_pool'', Module (AvgPool2d 7 1) [] [])]),
             (''output'',
              Module (Linear 32 1000)
                [(''weight'', Kaiming_normal Fan_out), (''bias'', Constant 0)] [])])"
  using MobileNet_single_entry [of 32 3 1000 "[]" False "(224, 224)"] by simp

section \<open>The stride policy\<close>

lemma map_of_units_of:
  "j < length cs \<Longrightarrow>
   map_of (units_of mk fss i j0 inc cs) (''unit'' @ str_nat (j0 + j + 1)) =
     Some (mk (last (inc # take j cs)) (cs ! j) (unit_stride_of fss i (j0 + j)))"
proof (induction cs arbitrary: j0 inc j)
  case Nil
  then show ?case by simp
next
  case (Cons c cs)
  show ?case
  proof (cases j)
    case 0
    then show ?thesis by simp
  next
    case (Suc k)
    have "str_nat (j0 + Suc k + 1) \<noteq> str_nat (j0 + 1)"
      using str_nat_inj [of "j0 + Suc k + 1" "j0 + 1"] by auto
    moreover from Cons.prems Suc have "k < length cs" by simp
    from Cons.IH [OF this, of "Suc j0" c]
    have "map_of (units_of mk fss i (Suc j0) c cs) (''unit'' @ str_nat (j0 + Suc k + 1)) =
            Some (mk (last (c # take k cs)) (cs ! k) (unit_stride_of fss i (j0 + Suc k)))"
      by simp
    ultimately show ?thesis using Suc by simp
  qed
qed

lemma map_of_stages_of:
  "i < length cs \<Longrightarrow>
   map_of (stages_of mk fss i0 inc cs) (''stage'' @ str_nat (i0 + i + 1)) =
     Some (Module Sequential []
             (units_of mk fss (i0 + i) 0 (last (inc # concat (take i cs))) (cs ! i)))"
proof (induction cs arbitrary: i0 inc i)
  case Nil
  then show ?case by simp
next
  case (Cons c cs)
  show ?case
  proof (cases i)
    case 0
    then show ?thesis by simp
  next
    case (Suc k)
    have "str_nat (i0 + Suc k + 1) \<noteq> str_nat (i0 + 1)"
      using str_nat_inj [of "i0 + Suc k + 1" "i0 + 1"] by auto
    moreover from Cons.prems Suc have "k < length cs" by simp
    from Cons.IH [OF this, of "Suc i0" "last (inc # c)"]
    have "map_of (stages_of mk fss (Suc i0) (last (inc # c)) cs) (''stage'' @ str_nat (i0 + Suc k + 1)) =
            Some (Module Sequential []
              (units_of mk fss (i0 + Suc k) 0 (last (last (inc # c) # concat (take k cs))) (cs ! k)))"
      by simp
    moreover have "last (last (inc # c) # concat (take k cs)) = last (inc # c @ concat (take k cs))"
      by (cases "concat (take k cs) = []") (auto simp: last_append)
    ultimately show ?thesis using Suc by simp
  qed
qed

lemma unit_stride_MobileNet_after:
  assumes "i < length cs" "j < length (cs ! i)"
  shows "unit_stride (MobileNet_after ((c # r) # cs) fss inc sz nc) i j = Inr (unit_stride_of fss i j)"
proof -
  let ?stages = "stages_of DwsConvBlock_after fss 0 c cs"
  have s: "map_of ?stages (''stage'' @ str_nat (i + 1)) =
     Some (Module Sequential []
             (units_of DwsConvBlock_after fss i 0 (last (c # concat (take i cs))) (cs ! i)))"
    using map_of_stages_of [OF assms(1), of DwsConvBlock_after fss 0 c] by simp
  have u: "map_of (units_of DwsConvBlock_after fss i 0 (last (c # concat (take i cs))) (cs ! i))
             (''unit'' @ str_nat (j + 1)) =
     Some (DwsConvBlock_after (last (last (c # concat (take i cs)) # take j (cs ! i))) (cs ! i ! j)
             (unit_stride_of fss i j))"
    using map_of_units_of [OF assms(2), of DwsConvBlock_after fss i 0] by simp
  have f: "map_of ((''init_block'', b) # ?stages @ [(''final_pool'', p)]) (''stage'' @ str_nat (i + 1)) =
        map_of ?stages (''stage'' @ str_nat (i + 1))" for b p
    using s by (simp add: map_add_def)
  show ?thesis
    unfolding unit_stride_def MobileNet_after_def
    using f s u
    by (simp add: getattr_def DwsConvBlock_after_def conv_block_after_def)
qed

text \<open>
  Claim C3. For every channel table and both values of the first-stage-stride flag,
  whenever the constructor returns a network, unit \<open>j\<close> of stage \<open>i\<close> (both counted
  from 0) has stride 2 if it is the first unit of its stage and the stage is not
  the first or the flag is set, and stride 1 otherwise. So for \<open>orig\<close> (flag false)
  the first unit of stage 1 has stride 1, for \<open>fd\<close> (flag true) it has stride 2, in
  both the first unit of every later stage has stride 2, and every unit that is
  not the first of its stage has stride 1.
\<close>

theorem MobileNet_unit_strides:
  assumes "MobileNet_init channels first_stage_stride in_channels in_size num_classes = Inr net"
    and "i < length (tl channels)" and "j < length (tl channels ! i)"
  shows "unit_stride net i j = Inr (if j = 0 \<and> (i \<noteq> 0 \<or> first_stage_stride) then 2 else 1)"
proof -
  from MobileNet_init_Inr [OF assms(1)]
  have n: "channels \<noteq> []" "hd channels \<noteq> []"
    and net: "net = MobileNet_after channels first_stage_stride in_channels in_size num_classes"
    by simp_all
  from n obtain c r cs where ch: "channels = (c # r) # cs"
    by (cases channels; cases "hd channels") auto
  with assms(2,3) have "i < length cs" "j < length (cs ! i)" by simp_all
  then have "unit_stride (MobileNet_after ((c # r) # cs) first_stage_stride in_channels in_size num_classes) i j
      = Inr (unit_stride_of first_stage_stride i j)"
    by (rule unit_stride_MobileNet_after)
  then show ?thesis
    unfolding net ch unit_stride_of_def .
qed

text \<open>
  Claim C3 on the table \<^verbatim>\<open>[[32], [64], [128, 128]]\<close>: the first unit of stage 1 without
  and with the flag, the first unit of stage 2, and the second unit of stage 2.
\<close>

theorem MobileNet_unit_strides_witness:
  "MobileNet_init [[32], [64], [128, 128]] False 3 (224, 224) 1000 =
     Inr (MobileNet_after [[32], [64], [128, 128]] False 3 (224, 224) 1000)
   \<and> MobileNet_init [[32], [64], [128, 128]] True 3 (224, 224) 1000 =
     Inr (MobileNet_after [[32], [64], [128, 128]] True 3 (224, 224) 1000)
   \<and> (0 :: nat) < length (tl [[32 :: int], [64], [128, 128]])
   \<and> (1 :: nat) < length (tl [[32 :: int], [64], [128, 128]])
   \<and> (0 :: nat) < length (tl [[32 :: int], [64], [128, 128]] ! 0)
   \<and> (1 :: nat) < length (tl [[32 :: int], [64], [128, 128]] ! 1)
   \<and> unit_stride (MobileNet_after [[32], [64], [128, 128]] False 3 (224, 224) 1000) 0 0 = Inr 1
   \<and> unit_stride (MobileNet_after [[32], [64], [128, 128]] True 3 (224, 224) 1000) 0 0 = Inr 2
   \<and> unit_stride (MobileNet_after [[32], [64], [128, 128]] False 3 (224, 224) 1000) 1 0 = Inr 2
   \<and> unit_stride (MobileNet_after [[32], [64], [128, 128]] True 3 (224, 224) 1000) 1 1 = Inr 1"
proof -
  have f: "MobileNet_init [[32], [64], [128, 128]] False 3 (224, 224) 1000 =
     Inr (MobileNet_after [[32], [64], [128, 128]] False 3 (224, 224) 1000)"
    by (rule MobileNet_init_ok) simp_all
  have t: "MobileNet_init [[32], [64], [128, 128]] True 3 (224, 224) 1000 =
     Inr (MobileNet_after [[32], [64], [128, 128]] True 3 (224, 224) 1000)"
    by (rule MobileNet_init_ok) simp_all
  have l0: "(0 :: nat) < length (tl [[32 :: int], [64], [128, 128]])" by simp
  have l1: "(1 :: nat) < length (tl [[32 :: int], [64], [128, 128]])" by simp
  have m0: "(0 :: nat) < length (tl [[32 :: int], [64], [128, 128]] ! 0)" by simp
  have m1: "(1 :: nat) < length (tl [[32 :: int], [64], [128, 128]] ! 1)" by simp
  have m2: "(0 :: nat) < length (tl [[32 :: int], [64], [128, 128]] ! 1)" by simp
  from MobileNet_unit_strides [OF f l0 m0] MobileNet_unit_strides [OF t l0 m0]
    MobileNet_unit_strides [OF f l1 m2] MobileNet_unit_strides [OF t l1 m1]
    f t l0 l1 m0 m1
  show ?thesis by simp
qed

section \<open>What the initialisation pass writes\<close>

lemma named_children_append:
  "named_children pfx (xs @ ys) = named_children pfx xs @ named_children pfx ys"
  by (induction xs) auto

lemma bn_unit:
  assumes "(name, m) \<in> set (named_modules (''features.stage'' @ str_nat a @ ''.unit'' @ str_nat b)
                              (DwsConvBlock_after x y s))"
    and "str_in ''bn'' name \<or> (\<exists>n. cls m = BatchNorm2d n)"
  shows "parameters m = [(''weight'', Constant 1), (''bias'', Constant 0)]"
  using assms
  by (simp add: block_defs sub_prefix_def str_in_str_nat str_in_str_nat_end)
    (elim disjE conjE; simp add: str_in_str_nat str_in_str_nat_end)

lemma bn_units:
  assumes "(name, m) \<in> set (named_children (''features.stage'' @ str_nat a)
                              (units_of DwsConvBlock_after fss i j inc cs))"
    and "str_in ''bn'' name \<or> (\<exists>n. cls m = BatchNorm2d n)"
  shows "parameters m = [(''weight'', Constant 1), (''bias'', Constant 0)]"
  using assms(1)
proof (induction cs arbitrary: j inc)
  case Nil
  then show ?case by simp
next
  case (Cons c cs)
  have p: "sub_prefix (''features.stage'' @ str_nat a) (''unit'' @ str_nat n)
          = ''features.stage'' @ str_nat a @ ''.unit'' @ str_nat n" for n
    by (simp add: sub_prefix_def)
  from Cons.prems have
    "(name, m) \<in> set (named_modules (''features.stage'' @ str_nat a @ ''.unit'' @ str_nat (j + 1))
                        (DwsConvBlock_after inc c (unit_stride_of fss i j)))
     \<or> (name, m) \<in> set (named_children (''features.stage'' @ str_nat a)
                          (units_of DwsConvBlock_after fss i (Suc j) c cs))"
    by (simp add: p del: append.simps)
  then show ?case
  proof
    assume "(name, m) \<in> set (named_modules (''features.stage'' @ str_nat a @ ''.unit'' @ str_nat (j + 1))
                        (DwsConvBlock_after inc c (unit_stride_of fss i j)))"
    then show ?thesis using assms(2) by (rule bn_unit)
  next
    assume "(name, m) \<in> set (named_children (''features.stage'' @ str_nat a)
                          (units_of DwsConvBlock_after fss i (Suc j) c cs))"
    then show ?thesis by (rule Cons.IH)
  qed
qed

lemma bn_stages:
  assumes "(name, m) \<in> set (named_children ''features'' (stages_of DwsConvBlock_after fss i inc cs))"
    and "str_in ''bn'' name \<or> (\<exists>n. cls m = BatchNorm2d n)"
  shows "parameters m = [(''weight'', Constant 1), (''bias'', Constant 0)]"
  using assms(1)
proof (induction cs arbitrary: i inc)
  case Nil
  then show ?case by simp
next
  case (Cons c cs)
  have p: "sub_prefix ''features'' (''stage'' @ str_nat n) = ''features.stage'' @ str_nat n" for n
    by (simp add: sub_prefix_def)
  from Cons.prems have
    "(name, m) = (''features.stage'' @ str_nat (i + 1),
                  Module Sequential [] (units_of DwsConvBlock_after fss i 0 inc c))
     \<or> (name, m) \<in> set (named_children (''features.stage'' @ str_nat (i + 1))
                          (units_of DwsConvBlock_after fss i 0 inc c))
     \<or> (name, m) \<in> set (named_children ''features''
                          (stages_of DwsConvBlock_after fss (Suc i) (last (inc # c)) cs))"
    by (simp add: p del: append.simps last.simps)
  then show ?case
  proof (elim disjE)
    assume "(name, m) = (''features.stage'' @ str_nat (i + 1),
                  Module Sequential [] (units_of DwsConvBlock_after fss i 0 inc c))"
    with assms(2) show ?thesis by (simp add: str_in_str_nat_end)
  next
    assume "(name, m) \<in> set (named_children (''features.stage'' @ str_nat (i + 1))
                          (units_of DwsConvBlock_after fss i 0 inc c))"
    then show ?thesis using assms(2) by (rule bn_units)
  next
    assume "(name, m) \<in> set (named_children ''features''
                          (stages_of DwsConvBlock_after fss (Suc i) (last (inc # c)) cs))"
    then show ?thesis by (rule Cons.IH)
  qed
qed

lemma bn_MobileNet_after:
  assumes "(name, m) \<in> set (named_modules [] (MobileNet_after ((c # r) # cs) fss inc sz nc))"
    and "str_in ''bn'' name \<or> (\<exists>n. cls m = BatchNorm2d n)"
  shows "parameters m = [(''weight'', Constant 1), (''bias'', Constant 0)]"
proof -
  let ?net = "MobileNet_after ((c # r) # cs) fss inc sz nc"
  define A where "A = ([], ?net)
          # (''features'', the (map_of (children ?net) ''features''))
          # named_modules ''features.init_block'' (conv_block_after Framework_default inc c 3 2 1)"
  define B where "B = [(''features.final_pool'', nn_AvgPool2d 7 1),
             (''output'', Module (Linear (last (c # concat cs)) nc)
                [(''weight'', Kaiming_normal Fan_out), (''bias'', Constant 0)] [])]"
  have nm: "named_modules [] ?net
      = A @ named_children ''features'' (stages_of DwsConvBlock_after fss 0 c cs) @ B"
    unfolding A_def B_def
    by (simp add: MobileNet_after_def sub_prefix_def named_children_append nn_AvgPool2d_def)
  from assms(1) have "(name, m) \<in> set (A @ named_children ''features'' (stages_of DwsConvBlock_after fss 0 c cs) @ B)"
    by (simp only: nm)
  then have "(name, m) \<in> set A
     \<or> (name, m) \<in> set (named_children ''features'' (stages_of DwsConvBlock_after fss 0 c cs))
     \<or> (name, m) \<in> set B"
    by (simp only: set_append Un_iff)
  then show ?thesis
  proof (elim disjE)
    assume "(name, m) \<in> set A"
    with assms(2) show ?thesis
      unfolding A_def
      by (simp add: MobileNet_after_def block_defs sub_prefix_def)
        (elim disjE conjE; simp)
  next
    assume "(name, m) \<in> set (named_children ''features'' (stages_of DwsConvBlock_after fss 0 c cs))"
    then show ?thesis using assms(2) by (rule bn_stages)
  next
    assume "(name, m) \<in> set B"
    with assms(2) show ?thesis
      unfolding B_def
      by (simp add: block_defs) (elim disjE conjE; simp)
  qed
qed

text \<open>
  Claim C8. After construction, every named module whose name contains \<open>bn\<close>, and
  every module of class \<^verbatim>\<open>BatchNorm2d\<close>, holds a weight filled with 1 and a bias filled
  with 0, and no other parameter.
\<close>

theorem norm_layers_initialised:
  assumes "MobileNet_init channels first_stage_stride in_channels in_size num_classes = Inr net"
    and "(name, m) \<in> set (named_modules [] net)"
    and "str_in ''bn'' name \<or> (\<exists>n. cls m = BatchNorm2d n)"
  shows "parameters m = [(''weight'', Constant 1), (''bias'', Constant 0)]"
proof -
  from MobileNet_init_Inr [OF assms(1)]
  have n: "channels \<noteq> []" "hd channels \<noteq> []"
    and net: "net = MobileNet_after channels first_stage_stride in_channels in_size num_classes"
    by simp_all
  from n obtain c r cs where ch: "channels = (c # r) # cs"
    by (cases channels; cases "hd channels") auto
  from assms(2) have "(name, m) \<in> set (named_modules []
      (MobileNet_after ((c # r) # cs) first_stage_stride in_channels in_size num_classes))"
    unfolding net ch .
  then show ?thesis using assms(3) by (rule bn_MobileNet_after)
qed

text \<open>
  Claim C8 on the table \<^verbatim>\<open>[[32], [64]]\<close>, at the normalization layer of the depthwise
  block of the only unit.
\<close>

theorem norm_layers_initialised_witness:
  "MobileNet_init [[32], [64]] False 3 (224, 224) 1000 =
     Inr (MobileNet_after [[32], [64]] False 3 (224, 224) 1000)
   \<and> (''features.stage1.unit1.dw_conv.bn'',
        Module (BatchNorm2d 32) [(''weight'', Constant 1), (''bias'', Constant 0)] [])
       \<in> set (named_modules [] (MobileNet_after [[32], [64]] False 3 (224, 224) 1000))
   \<and> str_in ''bn'' ''features.stage1.unit1.dw_conv.bn''
   \<and> parameters (Module (BatchNorm2d 32) [(''weight'', Constant 1), (''bias'', Constant 0)] []) =
        [(''weight'', Constant 1), (''bias'', Constant 0)]"
proof -
  have h1: "MobileNet_init [[32], [64]] False 3 (224, 224) 1000 =
     Inr (MobileNet_after [[32], [64]] False 3 (224, 224) 1000)"
    by (rule MobileNet_init_ok) simp_all
  have h2: "(''features.stage1.unit1.dw_conv.bn'',
        Module (BatchNorm2d 32) [(''weight'', Constant 1), (''bias'', Constant 0)] [])
       \<in> set (named_modules [] (MobileNet_after [[32], [64]] False 3 (224, 224) 1000))"
    by code_simp
  have h3: "str_in ''bn'' ''features.stage1.unit1.dw_conv.bn''"
    by simp
  from norm_layers_initialised [OF h1 h2 disjI1 [OF h3]] h1 h2 h3 show ?thesis
    by (intro conjI)
qed

text \<open>
  Claim C2 fails on the code. In the network \<^verbatim>\<open>mobilenet_w1(pretrained=False)\<close> the
  weight of the stem convolution is what the framework's constructor left: the pass
  reaches the module under the name \<open>features.init_block.conv\<close>, which no rule
  matches, while the rule written for it compares the name with \<open>init_block.conv\<close>.
\<close>

theorem stem_conv_not_initialised:
  "(case snd (mobilenet_w1 False default_root default_kwargs) of
      Inl e \<Rightarrow> None
    | Inr net \<Rightarrow> param_at net [''features'', ''init_block'', ''conv''] ''weight'')
     = Some Framework_default
   \<and> init_module ''features.init_block.conv'' (nn_Conv2d 3 32 3 2 1) = Inr (nn_Conv2d 3 32 3 2 1)
   \<and> init_module ''init_block.conv'' (nn_Conv2d 3 32 3 2 1) =
       Inr (Module (Conv2d 3 32 3 2 1) [(''weight'', Kaiming_normal Fan_out)] [])"
proof (intro conjI)
  have "get_channels ''orig'' (Float 1) =
      Inr ([[32], [64], [128, 128], [256, 256], [512, 512, 512, 512, 512, 512], [1024, 1024]], False)"
    by (simp add: get_channels_def base_table_def)
  with orig_table_ok have "snd (mobilenet_w1 False default_root default_kwargs) =
      Inr (MobileNet_after [[32], [64], [128, 128], [256, 256], [512, 512, 512, 512, 512, 512], [1024, 1024]]
             False 3 (224, 224) 1000)"
    by (simp add: mobilenet_w1_def get_mobilenet_def default_kwargs_def)
  then show "(case snd (mobilenet_w1 False default_root default_kwargs) of
      Inl e \<Rightarrow> None
    | Inr net \<Rightarrow> param_at net [''features'', ''init_block'', ''conv''] ''weight'')
     = Some Framework_default"
    by (simp add: MobileNet_after_def param_at_def getattr_def conv_block_after_def)
  show "init_module ''features.init_block.conv'' (nn_Conv2d 3 32 3 2 1) = Inr (nn_Conv2d 3 32 3 2 1)"
    by (simp add: init_module_def)
  show "init_module ''init_block.conv'' (nn_Conv2d 3 32 3 2 1) =
       Inr (Module (Conv2d 3 32 3 2 1) [(''weight'', Kaiming_normal Fan_out)] [])"
    by (simp add: init_module_def init_kaiming_normal_def nn_Conv2d_def)
qed

section \<open>The partition of MyMobilenetV1\<close>

lemma partition_loop_take_drop:
  "partition_loop k (enumerate n xs) (lat, en) =
     (lat @ take (nat (k + 1) - n) xs, en @ drop (nat (k + 1) - n) xs)"
proof (induction xs arbitrary: n lat en)
  case Nil
  show ?case by simp
next
  case (Cons x xs)
  show ?case
  proof (cases "int n \<le> k")
    case True
    then have "nat (k + 1) - n = Suc (nat (k + 1) - Suc n)" by linarith
    with True Cons show ?thesis by simp
  next
    case False
    then have "nat (k + 1) - n = 0" "nat (k + 1) - Suc n = 0" by linarith+
    with False Cons show ?thesis by simp
  qed
qed

lemma layers_of_nn_Sequential: "layers_of (nn_Sequential ms) = ms"
  by (simp add: layers_of_def nn_Sequential_def)

lemma MyMobilenetV1_init_closed:
  assumes "base_model pretrained = (w, Inr model)"
  shows "MyMobilenetV1_init pretrained k =
     (w, Inr \<lparr>lat_features = nn_Sequential (take (nat (k + 1)) (butlast (flatten_layers model))),
              end_features = nn_Sequential (drop (nat (k + 1)) (butlast (flatten_layers model))),
              output_layer = nn_Linear 1024 50 False\<rparr>)"
  using assms partition_loop_take_drop [of k 0 "butlast (flatten_layers model)" "[]" "[]"]
  by (simp add: MyMobilenetV1_init_def Let_def)

lemma base_model_facts_True:
  "case snd (base_model True) of
     Inl e \<Rightarrow> False
   | Inr model \<Rightarrow>
       flatten_layers model = MobileNet_forward_order model
       \<and> getattr model ''output'' = Inr (last (flatten_layers model))
       \<and> cls (last (flatten_layers model)) = Linear 1024 1000
       \<and> cls (last (butlast (flatten_layers model))) = AvgPool2d 4 4
       \<and> length (flatten_layers model) = 29"
  by code_simp

lemma base_model_facts_False:
  "case snd (base_model False) of
     Inl e \<Rightarrow> False
   | Inr model \<Rightarrow>
       flatten_layers model = MobileNet_forward_order model
       \<and> getattr model ''output'' = Inr (last (flatten_layers model))
       \<and> cls (last (flatten_layers model)) = Linear 1024 1000
       \<and> cls (last (butlast (flatten_layers model))) = AvgPool2d 4 4
       \<and> length (flatten_layers model) = 29"
  by code_simp

lemma base_model_facts:
  "\<exists>w model. base_model pretrained = (w, Inr model)
       \<and> flatten_layers model = MobileNet_forward_order model
       \<and> getattr model ''output'' = Inr (last (flatten_layers model))
       \<and> cls (last (flatten_layers model)) = Linear 1024 1000
       \<and> cls (last (butlast (flatten_layers model))) = AvgPool2d 4 4
       \<and> length (flatten_layers model) = 29"
proof -
  obtain w r where b: "base_model pretrained = (w, r)" by (cases "base_model pretrained")
  have h: "case r of
     Inl e \<Rightarrow> False
   | Inr model \<Rightarrow>
       flatten_layers model = MobileNet_forward_order model
       \<and> getattr model ''output'' = Inr (last (flatten_layers model))
       \<and> cls (last (flatten_layers model)) = Linear 1024 1000
       \<and> cls (last (butlast (flatten_layers model))) = AvgPool2d 4 4
       \<and> length (flatten_layers model) = 29"
    using base_model_facts_True base_model_facts_False b by (cases pretrained) simp_all
  show ?thesis
  proof (cases r)
    case (Inl e)
    with h show ?thesis by simp
  next
    case (Inr model)
    from h have "flatten_layers model = MobileNet_forward_order model
       \<and> getattr model ''output'' = Inr (last (flatten_layers model))
       \<and> cls (last (flatten_layers model)) = Linear 1024 1000
       \<and> cls (last (butlast (flatten_layers model))) = AvgPool2d 4 4
       \<and> length (flatten_layers model) = 29"
      unfolding Inr sum.case .
    moreover from b Inr have "base_model pretrained = (w, Inr model)" by simp
    ultimately show ?thesis
      by (intro exI [of _ w] exI [of _ model] conjI) (elim conjE, assumption)+
  qed
qed

text \<open>
  Claim C1, as amended. For both values of \<^verbatim>\<open>pretrained\<close> (the loader as modelled
  above) and every split index, \<^verbatim>\<open>MyMobilenetV1\<close> is constructed. The flattened list of layers is the forward
  order of the base network: the stem block, the depthwise and the pointwise block
  of each unit, the pool, the classifier. Its last entry, the one left out of the
  partition, is the linear classifier \<^verbatim>\<open>output\<close> of the base network; the entry
  before it, which stays in the partition, is the replaced pool. The latent
  partition followed by the end partition is the forward order without the
  classifier.
\<close>

theorem MyMobilenetV1_forward_order:
  "\<exists>w model self.
      base_model pretrained = (w, Inr model)
      \<and> MyMobilenetV1_init pretrained latent_layer_num = (w, Inr self)
      \<and> flatten_layers model = MobileNet_forward_order model
      \<and> layers_of (lat_features self) @ layers_of (end_features self)
           = butlast (MobileNet_forward_order model)
      \<and> getattr model ''output'' = Inr (last (flatten_layers model))
      \<and> cls (last (flatten_layers model)) = Linear 1024 1000
      \<and> cls (last (butlast (flatten_layers model))) = AvgPool2d 4 4"
proof -
  from base_model_facts [of pretrained] obtain w model where
    b: "base_model pretrained = (w, Inr model)"
    and f: "flatten_layers model = MobileNet_forward_order model"
      "getattr model ''output'' = Inr (last (flatten_layers model))"
      "cls (last (flatten_layers model)) = Linear 1024 1000"
      "cls (last (butlast (flatten_layers model))) = AvgPool2d 4 4"
    by (elim exE conjE)
  let ?self = "\<lparr>lat_features = nn_Sequential (take (nat (latent_layer_num + 1)) (butlast (flatten_layers model))),
              end_features = nn_Sequential (drop (nat (latent_layer_num + 1)) (butlast (flatten_layers model))),
              output_layer = nn_Linear 1024 50 False\<rparr>"
  have m: "MyMobilenetV1_init pretrained latent_layer_num = (w, Inr ?self)"
    using b by (rule MyMobilenetV1_init_closed)
  have c: "layers_of (lat_features ?self) @ layers_of (end_features ?self)
           = butlast (MobileNet_forward_order model)"
    by (simp add: layers_of_nn_Sequential f(1))
  show ?thesis
    by (rule exI [of _ w], rule exI [of _ model], rule exI [of _ ?self])
      (intro conjI b m f c)
qed

text \<open>
  Claim C4, as amended. For both values of \<^verbatim>\<open>pretrained\<close> (the loader as modelled
  above), the flattened list has 29 layers. For every split index
  \<open>k\<close> the latent partition is the first \<open>k + 1\<close> layers of the list without its
  last entry (all 28 when \<open>k + 1\<close> exceeds 28, none when \<open>k + 1\<close> is negative) and
  the end partition is the rest, both in the order of the list. For
  \<open>-1 \<le> k \<le> 27\<close> the lengths are \<open>k + 1\<close> and \<open>(29 - 1) - (k + 1)\<close>.
\<close>

theorem MyMobilenetV1_partition_lengths:
  "\<exists>w model self.
      base_model pretrained = (w, Inr model)
      \<and> MyMobilenetV1_init pretrained latent_layer_num = (w, Inr self)
      \<and> length (flatten_layers model) = 29
      \<and> layers_of (lat_features self) = take (nat (latent_layer_num + 1)) (butlast (flatten_layers model))
      \<and> layers_of (end_features self) = drop (nat (latent_layer_num + 1)) (butlast (flatten_layers model))
      \<and> length (layers_of (lat_features self))
           = min (nat (latent_layer_num + 1)) (length (flatten_layers model) - 1)
      \<and> length (layers_of (end_features self))
           = (length (flatten_layers model) - 1) - nat (latent_layer_num + 1)
      \<and> (- 1 \<le> latent_layer_num \<and> latent_layer_num \<le> 27 \<longrightarrow>
            int (length (layers_of (lat_features self))) = latent_layer_num + 1
            \<and> int (length (layers_of (end_features self)))
                 = (int (length (flatten_layers model)) - 1) - (latent_layer_num + 1))"
proof -
  from base_model_facts [of pretrained] obtain w model where
    b: "base_model pretrained = (w, Inr model)"
    and l: "length (flatten_layers model) = 29"
    by (elim exE conjE)
  let ?self = "\<lparr>lat_features = nn_Sequential (take (nat (latent_layer_num + 1)) (butlast (flatten_layers model))),
              end_features = nn_Sequential (drop (nat (latent_layer_num + 1)) (butlast (flatten_layers model))),
              output_layer = nn_Linear 1024 50 False\<rparr>"
  have m: "MyMobilenetV1_init pretrained latent_layer_num = (w, Inr ?self)"
    using b by (rule MyMobilenetV1_init_closed)
  have c: "layers_of (lat_features ?self) = take (nat (latent_layer_num + 1)) (butlast (flatten_layers model))"
    "layers_of (end_features ?self) = drop (nat (latent_layer_num + 1)) (butlast (flatten_layers model))"
    by (simp_all add: layers_of_nn_Sequential)
  have d: "length (layers_of (lat_features ?self))
           = min (nat (latent_layer_num + 1)) (length (flatten_layers model) - 1)"
    "length (layers_of (end_features ?self))
           = (length (flatten_layers model) - 1) - nat (latent_layer_num + 1)"
    by (simp_all add: layers_of_nn_Sequential min.commute)
  have e: "- 1 \<le> latent_layer_num \<and> latent_layer_num \<le> 27 \<longrightarrow>
            int (length (layers_of (lat_features ?self))) = latent_layer_num + 1
            \<and> int (length (layers_of (end_features ?self)))
                 = (int (length (flatten_layers model)) - 1) - (latent_layer_num + 1)"
    unfolding d l by auto
  show ?thesis
    by (rule exI [of _ w], rule exI [of _ model], rule exI [of _ ?self])
      (intro conjI b m l c d e)
qed

text \<open>
  Claim C1 as stated fails: for \<^verbatim>\<open>MyMobilenetV1(pretrained=True)\<close> the last entry of
  the flattened list is the linear classifier, and the pool is the entry before it.
\<close>

theorem last_flattened_layer_counterexample:
  "(case snd (base_model True) of
      Inl e \<Rightarrow> None
    | Inr model \<Rightarrow>
        Some (cls (last (flatten_layers model)), cls (last (butlast (flatten_layers model)))))
   = Some (Linear 1024 1000, AvgPool2d 4 4)"
  by code_simp

text \<open>
  Claim C4 as stated fails at the split index 28: the latent partition has 28
  layers, not 29, and the end partition is empty.
\<close>

theorem partition_lengths_counterexample:
  "(case snd (MyMobilenetV1_init True 28) of
      Inl e \<Rightarrow> None
    | Inr self \<Rightarrow>
        Some (length (layers_of (lat_features self)), length (layers_of (end_features self))))
   = Some (28, 0)"
  by code_simp

text \<open>Claim C1 for the default arguments of \<^verbatim>\<open>MyMobilenetV1\<close>.\<close>

theorem MyMobilenetV1_forward_order_witness:
  "\<exists>w model self.
      base_model True = (w, Inr model)
      \<and> MyMobilenetV1_init True 20 = (w, Inr self)
      \<and> layers_of (lat_features self) @ layers_of (end_features self)
           = butlast (MobileNet_forward_order model)
      \<and> cls (last (flatten_layers model)) = Linear 1024 1000"
proof -
  from MyMobilenetV1_forward_order [of True 20] obtain w model self where
    "base_model True = (w, Inr model)"
    "MyMobilenetV1_init True 20 = (w, Inr self)"
    "layers_of (lat_features self) @ layers_of (end_features self)
           = butlast (MobileNet_forward_order model)"
    "cls (last (flatten_layers model)) = Linear 1024 1000"
    by (elim exE conjE)
  then show ?thesis
    by (intro exI [of _ w] exI [of _ model] exI [of _ self] conjI)
qed

text \<open>Claim C4 for the default arguments of \<^verbatim>\<open>MyMobilenetV1\<close>: 21 and 7 layers.\<close>

theorem MyMobilenetV1_partition_lengths_witness:
  "(- 1 :: int) \<le> 20 \<and> (20 :: int) \<le> 27
   \<and> (\<exists>w self.
         MyMobilenetV1_init True 20 = (w, Inr self)
         \<and> length (layers_of (lat_features self)) = 21
         \<and> length (layers_of (end_features self)) = 7)"
proof -
  from MyMobilenetV1_partition_lengths [of True 20] obtain w model self where
    m: "MyMobilenetV1_init True 20 = (w, Inr self)"
    and l: "length (flatten_layers model) = 29"
    and i: "- 1 \<le> (20 :: int) \<and> (20 :: int) \<le> 27 \<longrightarrow>
            int (length (layers_of (lat_features self))) = 20 + 1
            \<and> int (length (layers_of (end_features self)))
                 = (int (length (flatten_layers model)) - 1) - (20 + 1)"
    by (elim exE conjE)
  from i l have "length (layers_of (lat_features self)) = 21"
    "length (layers_of (end_features self)) = 7" by simp_all
  with m have "\<exists>w self.
         MyMobilenetV1_init True 20 = (w, Inr self)
         \<and> length (layers_of (lat_features self)) = 21
         \<and> length (layers_of (end_features self)) = 7"
    by (intro exI [of _ w] exI [of _ self] conjI)
  then show ?thesis by simp
qed

end
